theory Spec2Isabelle
  imports Complex_Main
begin

section \<open>Tokenizer (BM25Index._tokenize, BM25Index._stem, STOPWORDS)\<close>

text \<open>
  Strings are lists of characters with code points below 256.  Numbers that the
  program computes with (scores, weights, BM25 parameters) are modelled as reals:
  rounding, NaN and infinities of the double format are outside this part of the model.
\<close>

record TokenizationOptions =
  lowercase :: bool
  removeStopwords :: bool
  stemming :: bool
  splitOnCode :: bool

definition default_tokenization :: TokenizationOptions where
  "default_tokenization =
     \<lparr>lowercase = True, removeStopwords = True, stemming = True, splitOnCode = True\<rparr>"

definition STOPWORDS :: "string list" where
  "STOPWORDS =
    [''a'', ''an'', ''and'', ''are'', ''as'', ''at'', ''be'', ''but'', ''by'', ''for'', ''if'', ''in'',
     ''into'', ''is'', ''it'', ''no'', ''not'', ''of'', ''on'', ''or'', ''such'', ''that'', ''the'',
     ''their'', ''then'', ''there'', ''these'', ''they'', ''this'', ''to'', ''was'', ''will'', ''with'']"

definition toLowerCase_char :: "char \<Rightarrow> char" where
  "toLowerCase_char c =
     (let n = (of_char c :: nat)
      in if (65 \<le> n \<and> n \<le> 90) \<or> (192 \<le> n \<and> n \<le> 222 \<and> n \<noteq> 215)
         then char_of (n + 32) else c)"

definition toLowerCase :: "string \<Rightarrow> string" where
  "toLowerCase s = map toLowerCase_char s"

definition replace_class :: "string \<Rightarrow> string \<Rightarrow> string" where
  \<comment> \<open>\<open>s.replace(/[cls]/g, ' ')\<close>\<close>
  "replace_class cls s = map (\<lambda>c. if c \<in> set cls then CHR '' '' else c) s"

definition is_space :: "char \<Rightarrow> bool" where
  \<comment> \<open>the characters \<open>\s\<close> matches among code points below 256\<close>
  "is_space c = ((of_char c :: nat) \<in> {9, 10, 11, 12, 13, 32, 160})"

function js_split_ws :: "string \<Rightarrow> string \<Rightarrow> string list" where
  \<comment> \<open>\<open>s.split(/\s+/)\<close>, with the piece read so far as first argument\<close>
  "js_split_ws cur [] = [cur]"
| "js_split_ws cur (c # cs) =
     (if is_space c then cur # js_split_ws [] (dropWhile is_space cs)
      else js_split_ws (cur @ [c]) cs)"
  by pat_completeness auto
termination
  by (relation "measure (\<lambda>(cur, s). length s)") (auto simp: le_imp_less_Suc length_dropWhile_le)

definition endsWith :: "string \<Rightarrow> string \<Rightarrow> bool" where
  "endsWith s suf = (length suf \<le> length s \<and> drop (length s - length suf) s = suf)"

definition slice_end :: "string \<Rightarrow> nat \<Rightarrow> string" where
  \<comment> \<open>\<open>s.slice(0, -n)\<close> for \<open>n > 0\<close>\<close>
  "slice_end s n = take (length s - n) s"

definition stem :: "string \<Rightarrow> string" where
  "stem token =
     (if length token \<le> 3 then token
      else if endsWith token ''ing'' then slice_end token 3
      else if endsWith token ''ed'' then slice_end token 2
      else if endsWith token ''s'' \<and> \<not> endsWith token ''ss'' then slice_end token 1
      else if endsWith token ''ly'' then slice_end token 2
      else if endsWith token ''ment'' then slice_end token 4
      else token)"

definition tokenize :: "TokenizationOptions \<Rightarrow> string \<Rightarrow> string list" where
  "tokenize opts text =
     (let t1 = (if lowercase opts then toLowerCase text else text);
          t2 = (if splitOnCode opts
                then replace_class ''-+*/%=<>!&|^~''
                       (replace_class '';:,.'' (replace_class ''{}()[]'' t1))
                else t1);
          tokens = filter (\<lambda>token. length token > 0) (js_split_ws [] t2);
          tokens1 = (if removeStopwords opts
                     then filter (\<lambda>token. token \<notin> set STOPWORDS) tokens else tokens);
          tokens2 = (if stemming opts then map stem tokens1 else tokens1)
      in tokens2)"

section \<open>JavaScript containers\<close>

text \<open>
  A JavaScript \<open>Map\<close> iterates in insertion order, and \<open>set\<close> on a key that is
  present keeps the key's position.  Maps whose iteration order the program observes are
  association lists with that update.
\<close>

fun map_set :: "('k \<times> 'v) list \<Rightarrow> 'k \<Rightarrow> 'v \<Rightarrow> ('k \<times> 'v) list" where
  "map_set [] k v = [(k, v)]"
| "map_set ((k', v') # m) k v = (if k' = k then (k, v) # m else (k', v') # map_set m k v)"

definition map_has :: "('k \<times> 'v) list \<Rightarrow> 'k \<Rightarrow> bool" where
  "map_has m k = (map_of m k \<noteq> None)"

definition js_slice0 :: "int \<Rightarrow> 'a list \<Rightarrow> 'a list" where
  \<comment> \<open>\<open>xs.slice(0, k)\<close> for an integer \<open>k\<close>: a negative \<open>k\<close> counts from the end\<close>
  "js_slice0 k xs = (if k < 0 then take (nat (int (length xs) + k)) xs else take (nat k) xs)"

function String_nat :: "nat \<Rightarrow> string" where
  \<comment> \<open>\<open>String(n)\<close> for a natural number: its decimal digits\<close>
  "String_nat n =
     (if n < 10 then [char_of (48 + n)] else String_nat (n div 10) @ [char_of (48 + n mod 10)])"
  by pat_completeness auto
termination
  by (relation "measure (\<lambda>n. n)") auto

definition String_int :: "int \<Rightarrow> string" where
  \<comment> \<open>\<open>String(i)\<close> for an integer\<close>
  "String_int i = (if i < 0 then CHR ''-'' # String_nat (nat (- i)) else String_nat (nat i))"

definition sort_desc :: "('a \<Rightarrow> real) \<Rightarrow> 'a list \<Rightarrow> 'a list" where
  \<comment> \<open>\<open>xs.sort((a, b) => f(b) - f(a))\<close>: the sort of the language is stable, so the
      result is the stable arrangement by decreasing \<open>f\<close>\<close>
  "sort_desc f xs = sort_key (\<lambda>x. - f x) xs"

section \<open>BM25 index (class BM25Index)\<close>

record BM25DocumentMetadata =
  filePath :: string
  fileName :: string
  startLine :: int
  endLine :: int
  fileExt :: string
  hasImports :: bool

record BM25Document =
  doc_id :: string
  doc_content :: string
  doc_metadata :: BM25DocumentMetadata

record Posting =
  docIndex :: nat
  frequency :: nat

record BM25SearchResult =
  res_id :: string
  res_score :: real
  res_metadata :: "BM25DocumentMetadata option"

record BM25IndexOptions =
  opt_k1 :: "real option"
  opt_b :: "real option"
  opt_epsilon :: "real option"
  opt_lowercase :: "bool option"
  opt_removeStopwords :: "bool option"
  opt_stemming :: "bool option"
  opt_splitOnCode :: "bool option"

record BM25Index =
  k1 :: real
  b :: real
  epsilon :: real
  documents :: "(string \<times> string) list"
  documentMetadata :: "string \<rightharpoonup> BM25DocumentMetadata"
  invertedIndex :: "string \<rightharpoonup> Posting list"
  documentLengths :: "nat list"
  averageDocumentLength :: real
  documentCount :: nat
  vocabulary :: "string set"
  tokenizationOptions :: TokenizationOptions

datatype error = TypeError string | Error string

definition DEFAULT_K1 :: real where "DEFAULT_K1 = 1.2"
definition DEFAULT_B :: real where "DEFAULT_B = 0.75"
definition DEFAULT_EPSILON :: real where "DEFAULT_EPSILON = 0.25"

definition no_options :: BM25IndexOptions where
  "no_options = \<lparr>opt_k1 = None, opt_b = None, opt_epsilon = None, opt_lowercase = None,
     opt_removeStopwords = None, opt_stemming = None, opt_splitOnCode = None\<rparr>"

definition BM25Index_new :: "BM25IndexOptions \<Rightarrow> BM25Index" where
  \<comment> \<open>the constructor: \<open>x ?? d\<close> for the parameters, \<open>x !== false\<close> for the switches\<close>
  "BM25Index_new options =
     \<lparr>k1 = (case opt_k1 options of None \<Rightarrow> DEFAULT_K1 | Some x \<Rightarrow> x),
      b = (case opt_b options of None \<Rightarrow> DEFAULT_B | Some x \<Rightarrow> x),
      epsilon = (case opt_epsilon options of None \<Rightarrow> DEFAULT_EPSILON | Some x \<Rightarrow> x),
      documents = [],
      documentMetadata = Map.empty,
      invertedIndex = Map.empty,
      documentLengths = [],
      averageDocumentLength = 0,
      documentCount = 0,
      vocabulary = {},
      tokenizationOptions =
        \<lparr>lowercase = (opt_lowercase options \<noteq> Some False),
         removeStopwords = (opt_removeStopwords options \<noteq> Some False),
         stemming = (opt_stemming options \<noteq> Some False),
         splitOnCode = (opt_splitOnCode options \<noteq> Some False)\<rparr>\<rparr>"

definition array_assign :: "nat list \<Rightarrow> nat \<Rightarrow> nat \<Rightarrow> nat list" where
  \<comment> \<open>\<open>xs[i] = v\<close>.  Past the end JavaScript leaves holes below \<open>i\<close>; they are written
      as 0 here and never arise while \<open>documentCount\<close> is the length of
      \<open>documentLengths\<close>, which the constructor establishes and \<open>addDocument\<close> keeps.\<close>
  "array_assign xs i v =
     (if i < length xs then xs[i := v] else xs @ replicate (i - length xs) 0 @ [v])"

fun count_terms :: "string list \<Rightarrow> (string \<times> nat) list \<Rightarrow> (string \<times> nat) list" where
  \<comment> \<open>the loop filling \<open>termFrequencies\<close>\<close>
  "count_terms [] tf = tf"
| "count_terms (token # tokens) tf =
     count_terms tokens
       (let tf' = (if \<not> map_has tf token then map_set tf token 0 else tf)
        in map_set tf' token (the (map_of tf' token) + 1))"

fun add_postings ::
  "nat \<Rightarrow> (string \<times> nat) list \<Rightarrow> (string \<rightharpoonup> Posting list) \<Rightarrow> (string \<rightharpoonup> Posting list)" where
  \<comment> \<open>the loop over \<open>termFrequencies.entries()\<close>\<close>
  "add_postings di [] ix = ix"
| "add_postings di ((t, freq) # tf) ix =
     add_postings di tf
       (let ix' = (if ix t = None then ix(t \<mapsto> []) else ix)
        in ix'(t \<mapsto> the (ix' t) @ [\<lparr>docIndex = di, frequency = freq\<rparr>]))"

definition addDocument :: "BM25Index \<Rightarrow> BM25Document \<Rightarrow> BM25Index" where
  "addDocument idx document =
     (if documentMetadata idx (doc_id document) \<noteq> None then idx
      else
        let tokens = tokenize (tokenizationOptions idx) (doc_content document);
            di = documentCount idx;
            docLength = length tokens;
            totalLength = averageDocumentLength idx * real (documentCount idx) + real docLength;
            count = documentCount idx + 1
        in idx\<lparr>documents := documents idx @ [(doc_id document, doc_content document)],
               documentMetadata := (documentMetadata idx)(doc_id document \<mapsto> doc_metadata document),
               documentLengths := array_assign (documentLengths idx) di docLength,
               documentCount := count,
               averageDocumentLength := totalLength / real count,
               vocabulary := vocabulary idx \<union> set tokens,
               invertedIndex := add_postings di (count_terms tokens []) (invertedIndex idx)\<rparr>)"

definition addDocuments :: "BM25Index \<Rightarrow> BM25Document list \<Rightarrow> BM25Index" where
  "addDocuments idx docs = fold (\<lambda>d i. addDocument i d) docs idx"

definition calculateIDF :: "BM25Index \<Rightarrow> string \<Rightarrow> real" where
  "calculateIDF idx t =
     (let docsWithTerm = (case invertedIndex idx t of None \<Rightarrow> 0 | Some ps \<Rightarrow> length ps)
      in ln (1 + (real (documentCount idx) - real docsWithTerm + 0.5) / (real docsWithTerm + 0.5)
               + epsilon idx))"

definition calculateBM25Score :: "BM25Index \<Rightarrow> nat \<Rightarrow> nat \<Rightarrow> real \<Rightarrow> real" where
  \<comment> \<open>On an index built by \<open>addDocument\<close> every posting names a document with a
      recorded length, and the average length is positive as soon as there is a posting
      (lemma \<open>average_positive\<close>), so the read is in range and the division is by a
      positive number.\<close>
  "calculateBM25Score idx di termFrequency idf =
     (let docLength = real (documentLengths idx ! di);
          avgDocLength = averageDocumentLength idx;
          numerator = real termFrequency * (k1 idx + 1);
          denominator = real termFrequency
            + k1 idx * (1 - b idx + b idx * (docLength / avgDocLength))
      in idf * (numerator / denominator))"

fun score_postings ::
  "BM25Index \<Rightarrow> real \<Rightarrow> Posting list \<Rightarrow> (string \<times> real) list \<Rightarrow> error + (string \<times> real) list" where
  \<comment> \<open>the loop over one posting list; \<open>this.documents[docIndex].id\<close> raises a TypeError
      when \<open>docIndex\<close> is not an index of \<open>documents\<close>\<close>
  "score_postings idx idf [] scores = Inr scores"
| "score_postings idx idf (p # ps) scores =
     (if docIndex p < length (documents idx) then
        let docId = fst (documents idx ! docIndex p);
            score = calculateBM25Score idx (docIndex p) (frequency p) idf;
            scores' = (if \<not> map_has scores docId then map_set scores docId 0 else scores)
        in score_postings idx idf ps (map_set scores' docId (the (map_of scores' docId) + score))
      else Inl (TypeError ''Cannot read properties of undefined (reading 'id')''))"

fun score_terms ::
  "BM25Index \<Rightarrow> string list \<Rightarrow> (string \<times> real) list \<Rightarrow> error + (string \<times> real) list" where
  \<comment> \<open>the loop over the query tokens\<close>
  "score_terms idx [] scores = Inr scores"
| "score_terms idx (t # ts) scores =
     (case invertedIndex idx t of
        None \<Rightarrow> score_terms idx ts scores
      | Some postings \<Rightarrow>
          (case score_postings idx (calculateIDF idx t) postings scores of
             Inl e \<Rightarrow> Inl e
           | Inr scores' \<Rightarrow> score_terms idx ts scores'))"

definition search :: "BM25Index \<Rightarrow> string \<Rightarrow> int \<Rightarrow> error + BM25SearchResult list" where
  "search idx query k =
     (case score_terms idx (tokenize (tokenizationOptions idx) query) [] of
        Inl e \<Rightarrow> Inl e
      | Inr scores \<Rightarrow>
          Inr (js_slice0 k
                 (sort_desc res_score
                    (map (\<lambda>(docId, score).
                            \<lparr>res_id = docId, res_score = score,
                             res_metadata = documentMetadata idx docId\<rparr>) scores))))"

section \<open>JavaScript values of the embedding pipeline\<close>

text \<open>
  The components of a vector are numbers that may be NaN or infinite; the finite ones are
  modelled as reals.  Storing a number in a \<open>Float32Array\<close> is \<open>to_float32\<close>: a finite
  number beyond the range of the 32-bit format becomes an infinity, which the code tests
  for; the rounding of a number within the range is not modelled.
\<close>

datatype number = Finite real | NaN | PosInfinity | NegInfinity

fun isFinite :: "number \<Rightarrow> bool" where
  "isFinite (Finite x) = True"
| "isFinite NaN = False"
| "isFinite PosInfinity = False"
| "isFinite NegInfinity = False"

fun isNaN :: "number \<Rightarrow> bool" where
  "isNaN NaN = True"
| "isNaN (Finite x) = False"
| "isNaN PosInfinity = False"
| "isNaN NegInfinity = False"

definition FLOAT32_OVERFLOW :: real where
  \<comment> \<open>halfway between the largest 32-bit float, \<open>2^128 - 2^104\<close>, and \<open>2^128\<close>: from here
      on rounding to the nearest 32-bit float gives an infinity\<close>
  "FLOAT32_OVERFLOW = 2 ^ 128 - 2 ^ 103"

fun to_float32 :: "number \<Rightarrow> number" where
  \<comment> \<open>the value an element of a \<open>Float32Array\<close> holds after a number is written to it\<close>
  "to_float32 (Finite x) =
     (if FLOAT32_OVERFLOW \<le> x then PosInfinity
      else if x \<le> - FLOAT32_OVERFLOW then NegInfinity
      else Finite x)"
| "to_float32 NaN = NaN"
| "to_float32 PosInfinity = PosInfinity"
| "to_float32 NegInfinity = NegInfinity"

declare to_float32.simps(1) [simp del]

datatype jsval =
    JNum number
  | JStr string
  | JBool bool
  | JNull
  | JUndefined
  | JArr "jsval list"
  | JF32 "number list"
  | JObj "(string \<times> jsval) list"

text \<open>\<open>JArr\<close> is an \<open>Array\<close>, \<open>JF32\<close> a \<open>Float32Array\<close>, \<open>JObj\<close> a plain object with its
  properties in enumeration order.\<close>

fun truthy :: "jsval \<Rightarrow> bool" where
  "truthy (JNum (Finite x)) = (x \<noteq> 0)"
| "truthy (JNum NaN) = False"
| "truthy (JNum PosInfinity) = True"
| "truthy (JNum NegInfinity) = True"
| "truthy (JStr s) = (s \<noteq> [])"
| "truthy (JBool v) = v"
| "truthy JNull = False"
| "truthy JUndefined = False"
| "truthy (JArr xs) = True"
| "truthy (JF32 xs) = True"
| "truthy (JObj kvs) = True"

fun typeof :: "jsval \<Rightarrow> string" where
  "typeof (JNum n) = ''number''"
| "typeof (JStr s) = ''string''"
| "typeof (JBool v) = ''boolean''"
| "typeof JUndefined = ''undefined''"
| "typeof v = ''object''"

fun isArray :: "jsval \<Rightarrow> bool" where
  "isArray (JArr xs) = True"
| "isArray v = False"

fun isFloat32Array :: "jsval \<Rightarrow> bool" where
  "isFloat32Array (JF32 xs) = True"
| "isFloat32Array v = False"

fun get_prop :: "jsval \<Rightarrow> string \<Rightarrow> jsval" where
  \<comment> \<open>\<open>v.name\<close> for a property name that is not an index\<close>
  "get_prop (JObj kvs) name = (case map_of kvs name of None \<Rightarrow> JUndefined | Some v \<Rightarrow> v)"
| "get_prop v name = JUndefined"

fun first_elem :: "jsval \<Rightarrow> jsval" where
  \<comment> \<open>\<open>v[0]\<close>\<close>
  "first_elem (JArr []) = JUndefined"
| "first_elem (JArr (x # xs)) = x"
| "first_elem (JF32 []) = JUndefined"
| "first_elem (JF32 (x # xs)) = JNum x"
| "first_elem (JObj kvs) = (case map_of kvs ''0'' of None \<Rightarrow> JUndefined | Some v \<Rightarrow> v)"
| "first_elem (JStr []) = JUndefined"
| "first_elem (JStr (c # cs)) = JStr [c]"
| "first_elem v = JUndefined"

primrec flat :: "jsval \<Rightarrow> jsval list" where
  \<comment> \<open>what one element contributes to \<open>xs.flat(Infinity)\<close>\<close>
  "flat (JArr xs) = concat (map flat xs)"
| "flat (JNum n) = [JNum n]"
| "flat (JStr s) = [JStr s]"
| "flat (JBool v) = [JBool v]"
| "flat JNull = [JNull]"
| "flat JUndefined = [JUndefined]"
| "flat (JF32 xs) = [JF32 xs]"
| "flat (JObj kvs) = [JObj kvs]"

record js_library =
  \<comment> \<open>conversions of the language that are taken as given: \<open>Number(v)\<close> on a string or an
      object, and \<open>JSON.parse\<close> applied again while its result is a string (\<open>None\<close> when a
      parse throws)\<close>
  Number_of :: "jsval \<Rightarrow> number"
  JSON_parse_nested :: "string \<Rightarrow> jsval option"

fun Number :: "js_library \<Rightarrow> jsval \<Rightarrow> number" where
  "Number lib (JNum n) = n"
| "Number lib (JBool v) = (if v then Finite 1 else Finite 0)"
| "Number lib JNull = Finite 0"
| "Number lib JUndefined = NaN"
| "Number lib v = Number_of lib v"

section \<open>Embedding client (generateEmbedding, extractEmbeddingFromOutput)\<close>

definition EMBEDDING_DIMENSION :: nat where
  "EMBEDDING_DIMENSION = 768"

definition fit_dimension :: "'a \<Rightarrow> 'a list \<Rightarrow> 'a list" where
  \<comment> \<open>the pad-or-truncate step: \<open>push(...new Array(D - n).fill(c))\<close> or \<open>splice(D)\<close>\<close>
  "fit_dimension c xs =
     (if length xs \<noteq> EMBEDDING_DIMENSION then
        (if length xs < EMBEDDING_DIMENSION
         then xs @ replicate (EMBEDDING_DIMENSION - length xs) c
         else take EMBEDDING_DIMENSION xs)
      else xs)"

definition numeric_values :: "js_library \<Rightarrow> jsval list \<Rightarrow> number list" where
  \<comment> \<open>the \<open>map\<close> and \<open>filter\<close> over the flattened array: numeric strings are converted,
      numbers kept, everything else and every non-finite number dropped\<close>
  "numeric_values lib flattened =
     filter isFinite
       (concat (map (\<lambda>v. case v of
                       JStr s \<Rightarrow> (if \<not> isNaN (Number lib (JStr s)) then [Number lib (JStr s)] else [])
                     | JNum n \<Rightarrow> [n]
                     | _ \<Rightarrow> []) flattened))"

definition extract_from_candidate :: "js_library \<Rightarrow> jsval \<Rightarrow> error + number list" where
  \<comment> \<open>the second half of \<open>extractEmbeddingFromOutput\<close>, on the value bound to
      \<open>embedding\<close>\<close>
  "extract_from_candidate lib embedding =
     (case embedding of
        JArr xs \<Rightarrow>
          (let numericValues = numeric_values lib (concat (map flat xs))
           in if length numericValues = 0
              then Inl (Error ''Embedding contains no numeric values after processing'')
              else Inr (fit_dimension (Finite 0.1) numericValues))
      | JF32 xs \<Rightarrow>
          (if length xs \<noteq> EMBEDDING_DIMENSION
           then Inr (take (min (length xs) EMBEDDING_DIMENSION) xs
                     @ replicate (EMBEDDING_DIMENSION - min (length xs) EMBEDDING_DIMENSION)
                         (to_float32 (Finite 0.1)))
           else Inr xs)
      | _ \<Rightarrow> Inl (Error (''Unsupported embedding format: '' @ typeof embedding)))"

definition extract_from_object :: "js_library \<Rightarrow> jsval \<Rightarrow> error + number list" where
  \<comment> \<open>\<open>extractEmbeddingFromOutput\<close> on a value whose \<open>typeof\<close> is \<open>'object'\<close> and that is
      not \<open>null\<close>\<close>
  "extract_from_object lib output =
     extract_from_candidate lib
       (if isArray output then output
        else if truthy (get_prop output ''embedding'') then get_prop output ''embedding''
        else if truthy (get_prop output ''data'') then
          (let data = get_prop output ''data'' in if isArray data then first_elem data else data)
        else if truthy (first_elem output) \<and> isArray (first_elem output) then first_elem output
        else (case output of
                JObj kvs \<Rightarrow> JArr (map snd kvs)
              | JF32 xs \<Rightarrow> JArr (map JNum xs)
              | v \<Rightarrow> JArr []))"

fun message :: "error \<Rightarrow> string" where
  "message (Error m) = m"
| "message (TypeError m) = m"

definition unsupported_type :: "jsval \<Rightarrow> error" where
  "unsupported_type v = Error (''Unsupported embedding type: '' @ typeof v)"

definition invalid_json_string :: error where
  "invalid_json_string = Error ''Invalid embedding format: string that is not valid JSON''"

fun extractEmbeddingFromOutput :: "js_library \<Rightarrow> jsval \<Rightarrow> error + number list" where
  \<comment> \<open>On a string the function parses and calls itself inside a \<open>try\<close> whose handler
      replaces every error by the same one, so the chain of parses is taken in one step.\<close>
  "extractEmbeddingFromOutput lib (JArr xs) = extract_from_object lib (JArr xs)"
| "extractEmbeddingFromOutput lib (JF32 xs) = extract_from_object lib (JF32 xs)"
| "extractEmbeddingFromOutput lib (JObj kvs) = extract_from_object lib (JObj kvs)"
| "extractEmbeddingFromOutput lib (JStr s) =
     (case JSON_parse_nested lib s of
        None \<Rightarrow> Inl invalid_json_string
      | Some (JArr xs) \<Rightarrow>
          (case extract_from_object lib (JArr xs) of
             Inl e \<Rightarrow> Inl invalid_json_string | Inr v \<Rightarrow> Inr v)
      | Some (JObj kvs) \<Rightarrow>
          (case extract_from_object lib (JObj kvs) of
             Inl e \<Rightarrow> Inl invalid_json_string | Inr v \<Rightarrow> Inr v)
      | Some v \<Rightarrow> Inl invalid_json_string)"
| "extractEmbeddingFromOutput lib v = Inl (unsupported_type v)"

definition fallback_embedding :: "number list" where
  \<comment> \<open>\<open>new Float32Array(new Array(EMBEDDING_DIMENSION).fill(0.1))\<close>\<close>
  "fallback_embedding = map to_float32 (replicate EMBEDDING_DIMENSION (Finite 0.1))"

definition embedding_of_output :: "js_library \<Rightarrow> jsval \<Rightarrow> error + jsval list" where
  \<comment> \<open>the three ways \<open>generateEmbedding\<close> reads the answer of the model\<close>
  "embedding_of_output lib output =
     (if isArray output \<and> truthy (first_elem output)
         \<and> isFloat32Array (get_prop (first_elem output) ''values'')
      then (case get_prop (first_elem output) ''values'' of
              JF32 xs \<Rightarrow> Inr (map JNum xs) | v \<Rightarrow> Inr [])
      else if truthy output \<and> truthy (get_prop output ''embedding'')
              \<and> isArray (get_prop output ''embedding'')
      then (case get_prop output ''embedding'' of JArr xs \<Rightarrow> Inr xs | v \<Rightarrow> Inr [])
      else (case extractEmbeddingFromOutput lib output of
              Inl e \<Rightarrow> Inl e
            | Inr ns \<Rightarrow> Inr (map JNum ns)))"

definition generateEmbedding ::
  "js_library \<Rightarrow> error + unit \<Rightarrow> error + jsval \<Rightarrow> error + number list" where
  \<comment> \<open>\<open>init\<close> is the outcome of \<open>initializeCodeModel\<close>, \<open>answer\<close> the outcome of calling the
      model on the preprocessed, truncated text (the text only determines the request)\<close>
  "generateEmbedding lib init answer =
     (case init of
        Inl e \<Rightarrow> Inl (Error (''Failed to generate embedding: '' @ message e))
      | Inr u \<Rightarrow>
          (case answer of
             Inl e \<Rightarrow> Inr fallback_embedding
           | Inr output \<Rightarrow>
               (case embedding_of_output lib output of
                  Inl e \<Rightarrow> Inr fallback_embedding
                | Inr embedding \<Rightarrow>
                    Inr (map to_float32
                           (fit_dimension (Finite 0.1) (map (Number lib) embedding))))))"

section \<open>Vector store (createFAISSIndex, addToIndex, searchIndex)\<close>

record FAISSIndex =
  faiss_d :: nat
  faiss_vectors :: "number list list"

definition faiss_add :: "FAISSIndex \<Rightarrow> number list \<Rightarrow> error + FAISSIndex" where
  \<comment> \<open>Modelled from the spec: the index library (\<open>IndexFlatL2\<close> of \<open>faiss-node\<close>) is not
      part of the sources.  It is the exact store over a fixed dimension of section 4.F:
      \<open>add\<close> appends a vector of that dimension and raises on any other.\<close>
  "faiss_add ix v =
     (if length v = faiss_d ix then Inr (ix\<lparr>faiss_vectors := faiss_vectors ix @ [v]\<rparr>)
      else Inl (Error ''Invalid the given array length.''))"

record VectorMetadata =
  vm_filePath :: "string option"
  vm_startLine :: "int option"
  vm_endLine :: "int option"
  vm_content :: "string option"
  vm_displayContent :: "string option"
  vm_fileName :: "string option"
  vm_fileExt :: "string option"
  vm_directory :: "string option"
  vm_hasImports :: "bool option"

record VectorIndex =
  index :: FAISSIndex
  dimension :: nat
  size :: nat
  idToMetadata :: "int \<rightharpoonup> VectorMetadata"

record ChunkWithEmbedding =
  chunk_filePath :: string
  chunk_startLine :: int
  chunk_endLine :: int
  chunk_content :: string
  chunk_embedding :: jsval
  chunk_displayContent :: "string option"
  chunk_metadata :: "bool option option"

definition createFAISSIndex :: "nat option \<Rightarrow> VectorIndex" where
  \<comment> \<open>the wrapper around a freshly constructed library index\<close>
  "createFAISSIndex opt_dimension =
     (let d = (case opt_dimension of None \<Rightarrow> EMBEDDING_DIMENSION | Some n \<Rightarrow> n)
      in \<lparr>index = \<lparr>faiss_d = d, faiss_vectors = []\<rparr>, dimension = d, size = 0,
          idToMetadata = Map.empty\<rparr>)"

definition resize_f32 :: "number list \<Rightarrow> number list" where
  \<comment> \<open>a zeroed \<open>Float32Array(768)\<close> that receives the first \<open>min(n, 768)\<close> components\<close>
  "resize_f32 xs =
     take (min (length xs) 768) xs @ replicate (768 - min (length xs) 768) (Finite 0)"

definition numeric_items :: "jsval list \<Rightarrow> number list" where
  \<comment> \<open>the items with \<open>typeof item === 'number' && !isNaN(item)\<close>\<close>
  "numeric_items arr =
     concat (map (\<lambda>item. case item of JNum n \<Rightarrow> (if \<not> isNaN n then [n] else []) | _ \<Rightarrow> []) arr)"

definition to_processed :: "jsval \<Rightarrow> number list option" where
  \<comment> \<open>the value of \<open>processedEmbedding\<close> before the final validation; \<open>None\<close> is
      \<open>continue\<close>.  A plain array ends in \<open>new Float32Array(numericArray)\<close>.\<close>
  "to_processed embedding =
     (if \<not> truthy embedding then None
      else case embedding of
        JF32 xs \<Rightarrow> (if length xs \<noteq> 768 then Some (resize_f32 xs) else Some xs)
      | JArr arr \<Rightarrow>
          (let numericArray = numeric_items arr
           in if length numericArray = 0 then None
              else if length numericArray \<noteq> 768 then
                (if length numericArray < 768
                 then Some (map to_float32
                              (numericArray @ replicate (768 - length numericArray) (Finite 0)))
                 else Some (map to_float32 (take 768 numericArray)))
              else Some (map to_float32 numericArray))
      | JObj kvs \<Rightarrow>
          (case get_prop (JObj kvs) ''values'' of JF32 xs \<Rightarrow> Some xs | _ \<Rightarrow> None)
      | _ \<Rightarrow> None)"

definition process_embedding :: "jsval \<Rightarrow> number list option" where
  \<comment> \<open>one round of the first loop of \<open>addToIndex\<close>: the vector pushed to \<open>embeddings\<close>, or
      \<open>None\<close> when the chunk is skipped\<close>
  "process_embedding embedding =
     (case to_processed embedding of
        None \<Rightarrow> None
      | Some processedEmbedding \<Rightarrow>
          if length processedEmbedding \<noteq> 768 then None
          else if list_ex (\<lambda>x. \<not> isFinite x) processedEmbedding
          then Some (replicate 768 (to_float32 (Finite 0.1)))
          else Some processedEmbedding)"

definition chunk_meta :: "ChunkWithEmbedding \<Rightarrow> VectorMetadata" where
  \<comment> \<open>\<open>const { embedding: _, ...metadata } = chunk\<close>, read at the type \<open>VectorMetadata\<close>\<close>
  "chunk_meta c =
     \<lparr>vm_filePath = Some (chunk_filePath c), vm_startLine = Some (chunk_startLine c),
      vm_endLine = Some (chunk_endLine c), vm_content = Some (chunk_content c),
      vm_displayContent = chunk_displayContent c, vm_fileName = None, vm_fileExt = None,
      vm_directory = None, vm_hasImports = None\<rparr>"

fun collect_valid ::
  "ChunkWithEmbedding list \<Rightarrow> (number list \<times> ChunkWithEmbedding) list" where
  \<comment> \<open>the arrays \<open>embeddings\<close> and \<open>validChunks\<close>, filled in step\<close>
  "collect_valid [] = []"
| "collect_valid (c # cs) =
     (case process_embedding (chunk_embedding c) of
        None \<Rightarrow> collect_valid cs
      | Some e \<Rightarrow> (e, c) # collect_valid cs)"

fun faiss_add_all ::
  "nat \<Rightarrow> FAISSIndex \<Rightarrow> number list list \<Rightarrow> FAISSIndex \<times> error option" where
  \<comment> \<open>the loop of \<open>index.add\<close> calls, from position \<open>i\<close>; the library index is changed
      in place, so the vectors added before a failing call stay\<close>
  "faiss_add_all i ix [] = (ix, None)"
| "faiss_add_all i ix (e # es) =
     (case faiss_add ix e of
        Inl err \<Rightarrow>
          (ix, Some (Error (''Failed to add embedding '' @ String_nat i @ '' to FAISS index: ''
                            @ message err)))
      | Inr ix' \<Rightarrow> faiss_add_all (i + 1) ix' es)"

fun set_metadata ::
  "int \<Rightarrow> ChunkWithEmbedding list \<Rightarrow> (int \<rightharpoonup> VectorMetadata) \<Rightarrow> (int \<rightharpoonup> VectorMetadata)" where
  "set_metadata i [] m = m"
| "set_metadata i (c # cs) m = set_metadata (i + 1) cs (m(i \<mapsto> chunk_meta c))"

definition addToIndex ::
  "VectorIndex \<Rightarrow> ChunkWithEmbedding list \<Rightarrow> VectorIndex \<times> error option" where
  \<comment> \<open>the wrapper after the call, and the error when the call raises\<close>
  "addToIndex indexWrapper chunks =
     (let valid = collect_valid chunks; embeddings = map fst valid; validChunks = map snd valid
      in if length embeddings = 0 then (indexWrapper, None)
         else
           (case faiss_add_all 0 (index indexWrapper) embeddings of
              (ix, Some err) \<Rightarrow>
                (indexWrapper\<lparr>index := ix\<rparr>,
                 Some (Error (''Failed to add embeddings to index: '' @ message err)))
            | (ix, None) \<Rightarrow>
                (indexWrapper\<lparr>index := ix,
                   size := size indexWrapper + length embeddings,
                   idToMetadata :=
                     set_metadata (int (size indexWrapper)) validChunks (idToMetadata indexWrapper)\<rparr>,
                 None)))"

definition addToIndex_seq :: "VectorIndex \<Rightarrow> ChunkWithEmbedding list list \<Rightarrow> VectorIndex" where
  \<comment> \<open>a sequence of calls on the same wrapper, whether or not a call raises\<close>
  "addToIndex_seq indexWrapper batches = fold (\<lambda>chunks w. fst (addToIndex w chunks)) batches indexWrapper"

record VectorSearchResult =
  vr_id :: int
  vr_score :: real
  vr_distance :: real
  vr_metadata :: VectorMetadata

fun collect_results ::
  "(int \<rightharpoonup> VectorMetadata) \<Rightarrow> (int \<times> real) list \<Rightarrow> VectorSearchResult list" where
  \<comment> \<open>the loop over the labels and distances the library returned\<close>
  "collect_results m [] = []"
| "collect_results m ((label, distance) # rest) =
     (if label = - 1 then collect_results m rest
      else case m label of
        None \<Rightarrow> collect_results m rest
      | Some metadata \<Rightarrow>
          \<lparr>vr_id = label, vr_score = max 0 (1 - distance / 100), vr_distance = distance,
           vr_metadata = metadata\<rparr> # collect_results m rest)"

definition searchIndex ::
  "(FAISSIndex \<Rightarrow> number list \<Rightarrow> int \<Rightarrow> error + (real list \<times> int list)) \<Rightarrow>
   VectorIndex \<Rightarrow> number list \<Rightarrow> int \<Rightarrow> error + VectorSearchResult list" where
  \<comment> \<open>the first argument is the \<open>search\<close> of the index library\<close>
  "searchIndex faiss_search indexWrapper queryEmbedding k =
     (let safeK = min k (int (size indexWrapper))
      in if safeK = 0 then Inr []
         else case faiss_search (index indexWrapper) queryEmbedding safeK of
           Inl e \<Rightarrow> Inl (Error (''Failed to search index: '' @ message e))
         | Inr (distances, labels) \<Rightarrow>
             Inr (sort_desc vr_score
                    (collect_results (idToMetadata indexWrapper) (zip labels distances))))"

section \<open>Hybrid search (mergeResults, hybridSearch, groupResultsByFile, identifyRootCauseFile)\<close>

record SearchResultMetadata =
  sm_filePath :: string
  sm_fileName :: string
  sm_startLine :: int
  sm_endLine :: int
  sm_fileExt :: string
  sm_hasImports :: bool

record SearchResult =
  sr_id :: string
  bm25Score :: real
  vectorScore :: real
  combinedScore :: real
  sr_metadata :: "SearchResultMetadata option"
  rootCauseScore :: "real option"

record GroupedSearchResult =
  g_filePath :: string
  g_fileName :: string
  chunks :: "SearchResult list"
  maxScore :: real
  totalScore :: real

definition toSearchResultMetadata :: "BM25DocumentMetadata \<Rightarrow> SearchResultMetadata" where
  "toSearchResultMetadata metadata =
     \<lparr>sm_filePath = filePath metadata, sm_fileName = fileName metadata,
      sm_startLine = startLine metadata, sm_endLine = endLine metadata,
      sm_fileExt = fileExt metadata, sm_hasImports = hasImports metadata\<rparr>"

definition vectorToSearchResultMetadata :: "VectorMetadata \<Rightarrow> SearchResultMetadata" where
  \<comment> \<open>\<open>x || d\<close>: the default replaces a missing field and a falsy one alike\<close>
  "vectorToSearchResultMetadata metadata =
     \<lparr>sm_filePath = (case vm_filePath metadata of None \<Rightarrow> [] | Some x \<Rightarrow> x),
      sm_fileName = (case vm_fileName metadata of None \<Rightarrow> [] | Some x \<Rightarrow> x),
      sm_startLine = (case vm_startLine metadata of None \<Rightarrow> 0 | Some x \<Rightarrow> x),
      sm_endLine = (case vm_endLine metadata of None \<Rightarrow> 0 | Some x \<Rightarrow> x),
      sm_fileExt = (case vm_fileExt metadata of None \<Rightarrow> [] | Some x \<Rightarrow> x),
      sm_hasImports = (case vm_hasImports metadata of None \<Rightarrow> False | Some x \<Rightarrow> x)\<rparr>"

definition new_entry :: "string \<Rightarrow> SearchResultMetadata \<Rightarrow> SearchResult" where
  "new_entry i md =
     \<lparr>sr_id = i, bm25Score = 0, vectorScore = 0, combinedScore = 0, sr_metadata = Some md,
      rootCauseScore = None\<rparr>"

fun merge_bm25 ::
  "BM25SearchResult list \<Rightarrow> (string \<times> SearchResult) list \<Rightarrow> error + (string \<times> SearchResult) list" where
  \<comment> \<open>the first loop of \<open>mergeResults\<close>; \<open>toSearchResultMetadata\<close> raises a TypeError on
      a result without metadata\<close>
  "merge_bm25 [] m = Inr m"
| "merge_bm25 (r # rs) m =
     (case res_metadata r of
        None \<Rightarrow> Inl (TypeError ''Cannot read properties of undefined (reading 'filePath')'')
      | Some metadata \<Rightarrow>
          (let m' = (if \<not> map_has m (res_id r)
                     then map_set m (res_id r) (new_entry (res_id r) (toSearchResultMetadata metadata))
                     else m);
               entry = the (map_of m' (res_id r))
           in merge_bm25 rs
                (map_set m' (res_id r)
                   (entry\<lparr>bm25Score := res_score r,
                          sr_metadata := Some (toSearchResultMetadata metadata)\<rparr>))))"

fun merge_vector ::
  "VectorSearchResult list \<Rightarrow> (string \<times> SearchResult) list \<Rightarrow> (string \<times> SearchResult) list" where
  \<comment> \<open>the second loop of \<open>mergeResults\<close>, keyed by \<open>String(id)\<close>\<close>
  "merge_vector [] m = m"
| "merge_vector (r # rs) m =
     (let idStr = String_int (vr_id r);
          m' = (if \<not> map_has m idStr
                then map_set m idStr (new_entry idStr (vectorToSearchResultMetadata (vr_metadata r)))
                else m);
          entry = the (map_of m' idStr)
      in merge_vector rs
           (map_set m' idStr
              (entry\<lparr>vectorScore := vr_score r,
                     sr_metadata := Some (vectorToSearchResultMetadata (vr_metadata r))\<rparr>)))"

definition combine :: "real \<Rightarrow> real \<Rightarrow> SearchResult \<Rightarrow> SearchResult" where
  "combine bm25Weight vectorWeight entry =
     entry\<lparr>combinedScore := bm25Score entry * bm25Weight + vectorScore entry * vectorWeight\<rparr>"

definition mergeResults ::
  "BM25SearchResult list \<Rightarrow> VectorSearchResult list \<Rightarrow> real \<Rightarrow> real \<Rightarrow> error + SearchResult list" where
  "mergeResults bm25Results vectorResults bm25Weight vectorWeight =
     (case merge_bm25 bm25Results [] of
        Inl e \<Rightarrow> Inl e
      | Inr m \<Rightarrow>
          Inr (sort_desc combinedScore
                 (map (\<lambda>(key, entry). combine bm25Weight vectorWeight entry)
                    (merge_vector vectorResults m))))"

record HybridSearchOptions =
  hs_bm25Weight :: "real option"
  hs_vectorWeight :: "real option"
  hs_k :: "int option"
  hs_expandedK :: "int option"

record world =
  \<comment> \<open>what the surroundings answer: the file system behind \<open>initializeRAG\<close> and
      \<open>indexCodebase\<close>, the embedder behind \<open>generateEmbedding\<close>, the \<open>search\<close> of the
      index library, and the two regular-expression scans of the error log\<close>
  w_initializeRAG :: "string \<Rightarrow> error + (VectorIndex \<times> BM25Index)"
  w_indexCodebase :: "string \<Rightarrow> error + (VectorIndex \<times> BM25Index)"
  w_generateEmbedding :: "string \<Rightarrow> error + number list"
  w_faiss_search :: "FAISSIndex \<Rightarrow> number list \<Rightarrow> int \<Rightarrow> error + (real list \<times> int list)"
  w_prepareQueryForSearch :: "string \<Rightarrow> string"
  w_mentionedFiles :: "string \<Rightarrow> string list"

definition DEFAULT_BM25_WEIGHT :: real where "DEFAULT_BM25_WEIGHT = 0.3"
definition DEFAULT_VECTOR_WEIGHT :: real where "DEFAULT_VECTOR_WEIGHT = 0.7"
definition DEFAULT_TOP_K :: int where "DEFAULT_TOP_K = 5"

definition hybrid_failed :: "error \<Rightarrow> error" where
  "hybrid_failed e = Error (''Failed to perform hybrid search: '' @ message e)"

definition hybridSearch ::
  "world \<Rightarrow> string \<Rightarrow> VectorIndex \<Rightarrow> BM25Index \<Rightarrow> HybridSearchOptions \<Rightarrow> error + SearchResult list" where
  "hybridSearch w query vectorIndex bm25Index options =
     (let bm25Weight = (case hs_bm25Weight options of None \<Rightarrow> DEFAULT_BM25_WEIGHT | Some x \<Rightarrow> x);
          vectorWeight = (case hs_vectorWeight options of None \<Rightarrow> DEFAULT_VECTOR_WEIGHT | Some x \<Rightarrow> x);
          k = (case hs_k options of None \<Rightarrow> DEFAULT_TOP_K | Some x \<Rightarrow> x);
          expandedK = (case hs_expandedK options of None \<Rightarrow> k * 3 | Some x \<Rightarrow> x);
          maxAvailable = max (int (size vectorIndex)) (int (documentCount bm25Index));
          safeExpandedK = min expandedK maxAvailable;
          safeK = min k maxAvailable;
          totalWeight = bm25Weight + vectorWeight;
          normalizedBM25Weight = bm25Weight / totalWeight;
          normalizedVectorWeight = vectorWeight / totalWeight
      in case search bm25Index query safeExpandedK of
           Inl e \<Rightarrow> Inl (hybrid_failed e)
         | Inr bm25Results \<Rightarrow>
             (case w_generateEmbedding w query of
                Inl e \<Rightarrow> Inl (hybrid_failed e)
              | Inr queryEmbedding \<Rightarrow>
                  (case searchIndex (w_faiss_search w) vectorIndex queryEmbedding safeExpandedK of
                     Inl e \<Rightarrow> Inl (hybrid_failed e)
                   | Inr vectorResults \<Rightarrow>
                       (case mergeResults bm25Results vectorResults
                               normalizedBM25Weight normalizedVectorWeight of
                          Inl e \<Rightarrow> Inl (hybrid_failed e)
                        | Inr mergedResults \<Rightarrow> Inr (js_slice0 safeK mergedResults)))))"

definition new_group :: "string \<Rightarrow> string \<Rightarrow> GroupedSearchResult" where
  "new_group fp fn = \<lparr>g_filePath = fp, g_fileName = fn, chunks = [], maxScore = 0, totalScore = 0\<rparr>"

fun group_loop ::
  "SearchResult list \<Rightarrow> (string \<times> GroupedSearchResult) list \<Rightarrow> (string \<times> GroupedSearchResult) list" where
  \<comment> \<open>the loop of \<open>groupResultsByFile\<close> over the results\<close>
  "group_loop [] m = m"
| "group_loop (r # rs) m =
     (case sr_metadata r of
        None \<Rightarrow> group_loop rs m
      | Some metadata \<Rightarrow>
          if sm_filePath metadata = [] then group_loop rs m
          else
            (let fp = sm_filePath metadata;
                 m' = (if \<not> map_has m fp then map_set m fp (new_group fp (sm_fileName metadata))
                       else m);
                 g = the (map_of m' fp)
             in group_loop rs
                  (map_set m' fp
                     (g\<lparr>chunks := chunks g @ [r],
                        totalScore := totalScore g + combinedScore r,
                        maxScore := max (maxScore g) (combinedScore r)\<rparr>))))"

definition groupResultsByFile :: "SearchResult list \<Rightarrow> GroupedSearchResult list" where
  "groupResultsByFile searchResults = sort_desc maxScore (map snd (group_loop searchResults []))"



section \<open>Coordinator (retrieveRelevantFiles)\<close>







section \<open>Concrete inputs\<close>

definition doc1 :: BM25Document where
  "doc1 =
     \<lparr>doc_id = ''/p/a.ts:1-10'',
      doc_content = ''foo foo alpha beta gamma delta epsilon zeta eta theta'',
      doc_metadata =
        \<lparr>filePath = ''/p/a.ts'', fileName = ''a.ts'', startLine = 1, endLine = 10,
         fileExt = ''.ts'', hasImports = False\<rparr>\<rparr>"

definition plain_library :: js_library where
  "plain_library = \<lparr>Number_of = (\<lambda>v. NaN), JSON_parse_nested = (\<lambda>s. None)\<rparr>"

definition chunk_of :: "jsval \<Rightarrow> ChunkWithEmbedding" where
  "chunk_of e =
     \<lparr>chunk_filePath = ''/p/a.ts'', chunk_startLine = 1, chunk_endLine = 10,
      chunk_content = ''x'', chunk_embedding = e, chunk_displayContent = None,
      chunk_metadata = None\<rparr>"

section \<open>Grouping by file, as a specification\<close>

text \<open>
  \<open>result_path\<close> is the key under which a result is grouped (\<open>None\<close> when the loop skips
  it); \<open>group_spec\<close> is the group of a path, read off the list of results.
\<close>

definition result_path :: "SearchResult \<Rightarrow> string option" where
  "result_path r =
     (case sr_metadata r of
        None \<Rightarrow> None
      | Some md \<Rightarrow> if sm_filePath md = [] then None else Some (sm_filePath md))"

definition group_spec :: "SearchResult list \<Rightarrow> string \<Rightarrow> GroupedSearchResult" where
  "group_spec rs p =
     (let cs = filter (\<lambda>r. result_path r = Some p) rs
      in \<lparr>g_filePath = p,
          g_fileName = (case sr_metadata (hd cs) of None \<Rightarrow> [] | Some md \<Rightarrow> sm_fileName md),
          chunks = cs,
          maxScore = foldl max 0 (map combinedScore cs),
          totalScore = sum_list (map combinedScore cs)\<rparr>)"

definition group_inv :: "SearchResult list \<Rightarrow> (string \<times> GroupedSearchResult) list \<Rightarrow> bool" where
  "group_inv seen m =
     (distinct (map fst m) \<and>
      (\<forall>p. map_of m p =
         (if filter (\<lambda>r. result_path r = Some p) seen = [] then None
          else Some (group_spec seen p))))"




section \<open>Auxiliary notions for the BM25 search\<close>

text \<open>
  These definitions are not part of the program.  \<open>wf_index\<close> is the invariant of the
  index that the constructor establishes and \<open>addDocument\<close> keeps; \<open>score_events\<close> lists,
  in the order of the two nested loops of \<open>search\<close>, the document id and the score of every
  posting of every query token; \<open>first_scored\<close> is the order in which document ids enter the
  map of scores; \<open>before xs x y\<close> says that \<open>x\<close> occurs in \<open>xs\<close> before an occurrence of \<open>y\<close>.
  \<open>query_hits idx ts i\<close> lists what the query tokens \<open>ts\<close> find of the document \<open>i\<close>: one
  entry \<open>(n, p)\<close> for every occurrence of a token in \<open>ts\<close> and every posting \<open>p\<close> of that token
  that names the document, where \<open>n\<close> is the number of postings of the token.
\<close>

definition doc_ident :: "BM25Index \<Rightarrow> Posting \<Rightarrow> string" where
  "doc_ident idx p = fst (documents idx ! docIndex p)"

definition add_score :: "(string \<times> real) list \<Rightarrow> string \<Rightarrow> real \<Rightarrow> (string \<times> real) list" where
  "add_score scores i s = map_set scores i ((case map_of scores i of None \<Rightarrow> 0 | Some x \<Rightarrow> x) + s)"

definition score_events :: "BM25Index \<Rightarrow> string list \<Rightarrow> (string \<times> real) list" where
  "score_events idx ts =
     concat (map (\<lambda>t. case invertedIndex idx t of
                         None \<Rightarrow> []
                       | Some ps \<Rightarrow>
                           map (\<lambda>p. (doc_ident idx p,
                                     calculateBM25Score idx (docIndex p) (frequency p) (calculateIDF idx t)))
                             ps) ts)"

definition query_hits :: "BM25Index \<Rightarrow> string list \<Rightarrow> string \<Rightarrow> (nat \<times> Posting) list" where
  "query_hits idx ts i =
     concat (map (\<lambda>t. case invertedIndex idx t of
                         None \<Rightarrow> []
                       | Some ps \<Rightarrow> map (\<lambda>p. (length ps, p)) (filter (\<lambda>p. doc_ident idx p = i) ps))
               ts)"

definition add_key :: "'a list \<Rightarrow> 'a \<Rightarrow> 'a list" where
  "add_key ks i = (if i \<in> set ks then ks else ks @ [i])"

definition first_scored :: "BM25Index \<Rightarrow> string \<Rightarrow> string list" where
  "first_scored idx query =
     fold (\<lambda>i ks. add_key ks i)
       (map fst (score_events idx (tokenize (tokenizationOptions idx) query))) []"

fun before :: "'a list \<Rightarrow> 'a \<Rightarrow> 'a \<Rightarrow> bool" where
  "before [] x y = False"
| "before (z # zs) x y = ((z = x \<and> y \<in> set zs) \<or> before zs x y)"

definition wf_postings :: "BM25Index \<Rightarrow> Posting list \<Rightarrow> bool" where
  "wf_postings idx ps =
     (sorted_wrt (<) (map docIndex ps) \<and>
      (\<forall>p \<in> set ps. docIndex p < documentCount idx \<and> 1 \<le> frequency p
          \<and> frequency p \<le> documentLengths idx ! docIndex p))"

definition wf_index :: "BM25Index \<Rightarrow> bool" where
  "wf_index idx =
     (documentCount idx = length (documents idx) \<and>
      length (documentLengths idx) = length (documents idx) \<and>
      distinct (map fst (documents idx)) \<and>
      dom (documentMetadata idx) = fst ` set (documents idx) \<and>
      averageDocumentLength idx * real (documentCount idx) = real (sum_list (documentLengths idx)) \<and>
      0 \<le> averageDocumentLength idx \<and>
      (\<forall>t ps. invertedIndex idx t = Some ps \<longrightarrow> wf_postings idx ps))"

section \<open>Concrete indices\<close>

definition idx1 :: BM25Index where
  "idx1 = addDocuments (BM25Index_new no_options) [doc1]"

definition meta_of :: "string \<Rightarrow> BM25DocumentMetadata" where
  "meta_of name = \<lparr>filePath = ''/p/'' @ name, fileName = name, startLine = 1, endLine = 1,
     fileExt = ''.ts'', hasImports = False\<rparr>"

definition doc_beta :: BM25Document where
  "doc_beta = \<lparr>doc_id = ''/p/b.ts:1-1'', doc_content = ''beta'', doc_metadata = meta_of ''b.ts''\<rparr>"

definition doc_alpha :: BM25Document where
  "doc_alpha = \<lparr>doc_id = ''/p/a.ts:1-1'', doc_content = ''alpha'', doc_metadata = meta_of ''a.ts''\<rparr>"

definition doc_foofoo :: BM25Document where
  "doc_foofoo = \<lparr>doc_id = ''/p/f.ts:1-1'', doc_content = ''foo foo'', doc_metadata = meta_of ''f.ts''\<rparr>"

definition idx2 :: BM25Index where
  "idx2 = addDocuments (BM25Index_new no_options) [doc_beta, doc_alpha]"

definition idx3 :: BM25Index where
  "idx3 = addDocuments (BM25Index_new (no_options\<lparr>opt_k1 := Some (- 1.5)\<rparr>)) [doc_foofoo]"

definition idx_beta :: BM25Index where
  "idx_beta = addDocument (BM25Index_new no_options) doc_beta"

section \<open>Concrete surroundings\<close>

definition zero_vector :: "number list" where
  "zero_vector = replicate 768 (Finite 0)"

definition vi1 :: VectorIndex where
  "vi1 = fst (addToIndex (createFAISSIndex None) [chunk_of (JF32 zero_vector)])"






section \<open>Tokenizer scenario\<close>

text \<open>
  C3 (as the code behaves): with the default options the literal input
  "the FUNCTIONS are RUNNING quickly." is tokenized to function, runn, quick: the word
  "are" is a member of the stopword set and is removed together with "the".
\<close>

theorem tokenize_scenario:
  "tokenize default_tokenization ''the FUNCTIONS are RUNNING quickly.''
     = [''function'', ''runn'', ''quick'']"
  by code_simp

text \<open>The list claimed for this input, which keeps "are", is not what the tokenizer returns.\<close>

theorem tokenize_scenario_counterexample:
  "tokenize default_tokenization ''the FUNCTIONS are RUNNING quickly.''
     \<noteq> [''function'', ''are'', ''runn'', ''quick'']"
  by code_simp


section \<open>Adding a document twice\<close>

text \<open>
  C9: adding a document whose id is already present in the index returns at once; the
  index after the call is the index before it, in every field: documents, postings,
  vocabulary, document lengths, average document length and document count.  The test of
  the code is membership in \<open>documentMetadata\<close>; on an index built by the constructor and
  \<open>addDocument\<close> its keys are the ids of \<open>documents\<close> (lemma \<open>present_iff_documents\<close>).
\<close>

theorem addDocument_idempotent:
  assumes "documentMetadata idx (doc_id d) \<noteq> None"
  shows "addDocument idx d = idx"
  using assms by (simp add: addDocument_def)

theorem addDocument_idempotent_witness:
  "documentMetadata (addDocument (BM25Index_new no_options) doc1) (doc_id doc1) \<noteq> None
   \<and> addDocument (addDocument (BM25Index_new no_options) doc1) doc1
       = addDocument (BM25Index_new no_options) doc1"
proof -
  have h: "documentMetadata (addDocument (BM25Index_new no_options) doc1) (doc_id doc1) \<noteq> None"
    by (simp add: addDocument_def BM25Index_new_def Let_def)
  show ?thesis using h addDocument_idempotent [OF h] by simp
qed

section \<open>The embedding returned by the client\<close>


lemma to_float32_tenth: "to_float32 (Finite 0.1) = Finite 0.1"
  unfolding to_float32.simps FLOAT32_OVERFLOW_def by simp

lemma to_float32_zero: "to_float32 (Finite 0) = Finite 0"
  unfolding to_float32.simps FLOAT32_OVERFLOW_def by simp

lemma to_float32_one: "to_float32 (Finite 1) = Finite 1"
  unfolding to_float32.simps FLOAT32_OVERFLOW_def by simp


lemma Number_JNum: "map (Number lib) (map JNum xs) = xs"
  by (induction xs) auto



text \<open>
  The values of the typed-array format are not tested for finiteness, unlike the values
  that \<open>extractEmbeddingFromOutput\<close> finds: a NaN there is the first entry of the vector
  that is returned.
\<close>

lemma generateEmbedding_typed_array_nan:
  "generateEmbedding plain_library (Inr ())
     (Inr (JArr [JObj [(''values'', JF32 [NaN, Finite 1]), (''dims'', JNum (Finite 2))]]))
   = Inr (NaN # Finite 1 # replicate 766 (Finite 0.1))"
  by (simp add: generateEmbedding_def embedding_of_output_def fit_dimension_def
      EMBEDDING_DIMENSION_def to_float32_tenth to_float32_one)

section \<open>What the vector index stores\<close>

lemma process_embedding_length:
  "process_embedding e = Some v \<Longrightarrow> length v = 768"
  by (auto simp: process_embedding_def split: option.splits if_splits)

lemma process_embedding_finite:
  "process_embedding e = Some v \<Longrightarrow> list_all isFinite v"
  by (auto simp: process_embedding_def list_all_iff list_ex_iff to_float32_tenth
      split: option.splits if_splits)

lemma numeric_items_Cons:
  "numeric_items (JNum (Finite x) # arr) = Finite x # numeric_items arr"
  by (simp add: numeric_items_def)

lemma numeric_items_replicate:
  "numeric_items (replicate n (JNum (Finite x))) = replicate n (Finite x)"
  by (induction n) (simp_all add: numeric_items_def)

lemma collect_valid_length:
  "list_all (\<lambda>v. length v = 768) (map fst (collect_valid cs))"
  by (induction cs) (auto split: option.splits dest: process_embedding_length)

lemma collect_valid_append:
  "collect_valid (cs @ ds) = collect_valid cs @ collect_valid ds"
  by (induction cs) (auto split: option.splits)

lemma collect_valid_map_filter:
  "map fst (collect_valid cs) = List.map_filter (\<lambda>c. process_embedding (chunk_embedding c)) cs"
  by (induction cs) (auto split: option.splits)

lemma list_all_take: "list_all P xs \<Longrightarrow> list_all P (take n xs)"
  by (metis append_take_drop_id list_all_append)

lemma faiss_add_all_vectors:
  "faiss_add_all i ix es = (ix', r) \<Longrightarrow>
   \<exists>n. faiss_vectors ix' = faiss_vectors ix @ take n es"
proof (induction es arbitrary: i ix)
  case Nil
  then show ?case by simp
next
  case (Cons e es)
  show ?case
  proof (cases "faiss_add ix e")
    case (Inl err)
    with Cons.prems show ?thesis by (intro exI[of _ 0]) auto
  next
    case (Inr ix1)
    with Cons.prems have "faiss_add_all (i + 1) ix1 es = (ix', r)" by simp
    from Cons.IH[OF this] obtain n where
      n: "faiss_vectors ix' = faiss_vectors ix1 @ take n es" by blast
    from Inr have "faiss_vectors ix1 = faiss_vectors ix @ [e]"
      by (auto simp: faiss_add_def split: if_splits)
    with n show ?thesis by (intro exI[of _ "Suc n"]) auto
  qed
qed

lemma faiss_add_all_ok:
  "list_all (\<lambda>v. length v = faiss_d ix) es \<Longrightarrow>
   faiss_add_all i ix es = (ix\<lparr>faiss_vectors := faiss_vectors ix @ es\<rparr>, None)"
proof (induction es arbitrary: i ix)
  case Nil
  then show ?case by simp
next
  case (Cons e es)
  then show ?case by (simp add: faiss_add_def)
qed

lemma addToIndex_vectors:
  "\<exists>n. faiss_vectors (index (fst (addToIndex w cs)))
        = faiss_vectors (index w) @ take n (map fst (collect_valid cs))"
proof (cases "faiss_add_all 0 (index w) (map fst (collect_valid cs))")
  case (Pair ix r)
  from faiss_add_all_vectors[OF Pair] obtain n where
    "faiss_vectors ix = faiss_vectors (index w) @ take n (map fst (collect_valid cs))" by blast
  with Pair show ?thesis
    by (cases r) (auto simp: addToIndex_def Let_def intro: exI[of _ 0])
qed

lemma addToIndex_inv:
  assumes "list_all (\<lambda>v. length v = 768) (faiss_vectors (index w))"
  shows "list_all (\<lambda>v. length v = 768) (faiss_vectors (index (fst (addToIndex w cs))))"
proof -
  obtain n where "faiss_vectors (index (fst (addToIndex w cs)))
        = faiss_vectors (index w) @ take n (map fst (collect_valid cs))"
    using addToIndex_vectors by blast
  moreover have "list_all (\<lambda>v. length v = 768) (take n (map fst (collect_valid cs)))"
    using collect_valid_length[of cs] by (rule list_all_take)
  ultimately show ?thesis using assms by simp
qed

lemma addToIndex_seq_inv:
  "list_all (\<lambda>v. length v = 768) (faiss_vectors (index w)) \<Longrightarrow>
   list_all (\<lambda>v. length v = 768) (faiss_vectors (index (addToIndex_seq w batches)))"
  unfolding addToIndex_seq_def
  by (induction batches arbitrary: w) (auto intro: addToIndex_inv)

lemma addToIndex_768:
  assumes "faiss_d (index w) = 768"
  shows "faiss_vectors (index (fst (addToIndex w cs)))
           = faiss_vectors (index w) @ map fst (collect_valid cs)
         \<and> faiss_d (index (fst (addToIndex w cs))) = 768"
proof -
  have "list_all (\<lambda>v. length v = faiss_d (index w)) (map fst (collect_valid cs))"
    using collect_valid_length[of cs] assms by simp
  from faiss_add_all_ok[OF this, of 0] show ?thesis
    using assms by (simp add: addToIndex_def Let_def)
qed

lemma addToIndex_seq_768:
  "faiss_d (index w) = 768 \<Longrightarrow>
   faiss_vectors (index (addToIndex_seq w batches))
     = faiss_vectors (index w) @ map fst (collect_valid (concat batches))"
proof (induction batches arbitrary: w)
  case Nil
  then show ?case by (simp add: addToIndex_seq_def)
next
  case (Cons cs batches)
  have step: "addToIndex_seq w (cs # batches) = addToIndex_seq (fst (addToIndex w cs)) batches"
    by (simp add: addToIndex_seq_def)
  from addToIndex_768[OF Cons.prems, of cs] Cons.IH[of "fst (addToIndex w cs)"]
  show ?case by (simp add: step collect_valid_append)
qed

text \<open>
  C8: whatever the dimension the index was created with, and after any sequence of calls
  of \<open>addToIndex\<close> with embeddings of arbitrary shape and length, every vector in the store
  has exactly 768 components; an embedding is either brought to 768 components or skipped.
\<close>

theorem vector_index_dimension_invariant:
  "list_all (\<lambda>v. length v = 768)
     (faiss_vectors (index (addToIndex_seq (createFAISSIndex opt_d) batches)))
   \<and> (case process_embedding e of None \<Rightarrow> True | Some v \<Rightarrow> length v = 768)"
  by (auto simp: createFAISSIndex_def Let_def intro!: addToIndex_seq_inv
      split: option.splits dest: process_embedding_length)

text \<open>
  C6 (as the code behaves): the index created with the default dimension stores, in order,
  the processed embeddings of the chunks that are not skipped.  Every embedding is first
  brought to a typed array \<open>p\<close>: a typed array is zero-padded or cut to 768 components; a
  plain array keeps its items that are numbers other than NaN, is skipped when none is
  left, is zero-padded or cut to 768 components and is converted to 32-bit floats, where
  a number beyond the range of the format becomes an infinity; the typed array under
  \<open>values\<close> of an object is taken as it is; every other value is skipped.  The chunk is
  skipped unless \<open>p\<close> has 768 components.  When all components of \<open>p\<close> are finite, \<open>p\<close> is
  stored unchanged; when any component is NaN or infinite, the whole vector is replaced
  by the constant vector of 0.1, its finite components included.  So every stored
  component is finite.
\<close>

theorem addToIndex_finiteness:
  "faiss_vectors (index (addToIndex_seq (createFAISSIndex None) batches))
     = List.map_filter (\<lambda>c. process_embedding (chunk_embedding c)) (concat batches)
   \<and> process_embedding e
       = (case to_processed e of
            None \<Rightarrow> None
          | Some p \<Rightarrow>
              if length p \<noteq> 768 then None
              else Some (if list_all isFinite p then p else replicate 768 (Finite 0.1)))
   \<and> to_processed (JF32 xs) = Some (take 768 xs @ replicate (768 - length xs) (Finite 0))
   \<and> to_processed (JArr arr)
       = (if numeric_items arr = [] then None
          else Some (map to_float32
                 (take 768 (numeric_items arr)
                  @ replicate (768 - length (numeric_items arr)) (Finite 0))))
   \<and> to_processed (JObj kvs)
       = (case map_of kvs ''values'' of Some (JF32 xs) \<Rightarrow> Some xs | _ \<Rightarrow> None)
   \<and> to_processed (JNum n) = None \<and> to_processed (JStr s) = None
   \<and> to_processed (JBool v) = None \<and> to_processed JNull = None
   \<and> to_processed JUndefined = None
   \<and> (case process_embedding e of None \<Rightarrow> True | Some v \<Rightarrow> list_all isFinite v)"
proof (intro conjI)
  have "faiss_d (index (createFAISSIndex None)) = 768"
    by (simp add: createFAISSIndex_def EMBEDDING_DIMENSION_def)
  from addToIndex_seq_768[OF this, of batches]
  show "faiss_vectors (index (addToIndex_seq (createFAISSIndex None) batches))
     = List.map_filter (\<lambda>c. process_embedding (chunk_embedding c)) (concat batches)"
    by (simp add: collect_valid_map_filter createFAISSIndex_def)
next
  show "process_embedding e
       = (case to_processed e of
            None \<Rightarrow> None
          | Some p \<Rightarrow>
              if length p \<noteq> 768 then None
              else Some (if list_all isFinite p then p else replicate 768 (Finite 0.1)))"
    by (simp add: process_embedding_def to_float32_tenth list_all_iff list_ex_iff
        split: option.splits)
next
  show "to_processed (JF32 xs) = Some (take 768 xs @ replicate (768 - length xs) (Finite 0))"
    by (simp add: to_processed_def resize_f32_def min_def)
next
  show "to_processed (JArr arr)
       = (if numeric_items arr = [] then None
          else Some (map to_float32
                 (take 768 (numeric_items arr)
                  @ replicate (768 - length (numeric_items arr)) (Finite 0))))"
    by (simp add: to_processed_def Let_def)
next
  show "to_processed (JObj kvs)
       = (case map_of kvs ''values'' of Some (JF32 xs) \<Rightarrow> Some xs | _ \<Rightarrow> None)"
    by (simp add: to_processed_def split: option.splits jsval.splits)
next
  show "to_processed (JNum n) = None" by (simp add: to_processed_def)
next
  show "to_processed (JStr s) = None" by (simp add: to_processed_def)
next
  show "to_processed (JBool v) = None" by (simp add: to_processed_def)
next
  show "to_processed JNull = None" by (simp add: to_processed_def)
next
  show "to_processed JUndefined = None" by (simp add: to_processed_def)
next
  show "case process_embedding e of None \<Rightarrow> True | Some v \<Rightarrow> list_all isFinite v"
    by (auto split: option.splits dest: process_embedding_finite)
qed

text \<open>
  A typed array whose first component is NaN and whose other 767 components are the finite
  value 5 is stored as 768 times 0.1: the finite components are not kept.  A plain array
  of 768 finite numbers whose first is \<open>10^39\<close>, beyond the range of the 32-bit format, is
  stored as 768 times 0.1 as well.
\<close>

theorem addToIndex_nonfinite_counterexample:
  "faiss_vectors (index (fst (addToIndex (createFAISSIndex None)
       [chunk_of (JF32 (NaN # replicate 767 (Finite 5)))])))
   = [replicate 768 (Finite 0.1)]
   \<and> faiss_vectors (index (fst (addToIndex (createFAISSIndex None)
       [chunk_of (JArr (JNum (Finite (10 ^ 39)) # replicate 767 (JNum (Finite 1))))])))
   = [replicate 768 (Finite 0.1)]"
proof
  show "faiss_vectors (index (fst (addToIndex (createFAISSIndex None)
       [chunk_of (JF32 (NaN # replicate 767 (Finite 5)))])))
   = [replicate 768 (Finite 0.1)]"
    by (simp add: addToIndex_def createFAISSIndex_def chunk_of_def process_embedding_def
        to_processed_def faiss_add_def EMBEDDING_DIMENSION_def to_float32_tenth)
next
  have "to_float32 (Finite (10 ^ 39)) = PosInfinity"
    unfolding to_float32.simps FLOAT32_OVERFLOW_def by simp
  then show "faiss_vectors (index (fst (addToIndex (createFAISSIndex None)
       [chunk_of (JArr (JNum (Finite (10 ^ 39)) # replicate 767 (JNum (Finite 1))))])))
   = [replicate 768 (Finite 0.1)]"
    by (simp add: addToIndex_def createFAISSIndex_def chunk_of_def process_embedding_def
        to_processed_def faiss_add_def EMBEDDING_DIMENSION_def to_float32_tenth
        numeric_items_Cons numeric_items_replicate to_float32_one)
qed

text \<open>
  Two more inputs.  A plain array whose first item is NaN, followed by 767 times the value
  5, is stored as these 767 values and one 0: the NaN is dropped and the end is padded.
  An object whose typed array \<open>values\<close> has two components is skipped.
\<close>

lemma addToIndex_examples:
  "faiss_vectors (index (fst (addToIndex (createFAISSIndex None)
       [chunk_of (JArr (JNum NaN # replicate 767 (JNum (Finite 5))))])))
   = [replicate 767 (Finite 5) @ [Finite 0]]"
  "faiss_vectors (index (fst (addToIndex (createFAISSIndex None)
       [chunk_of (JObj [(''values'', JF32 [Finite 1, Finite 2])])])))
   = []"
proof -
  have n: "numeric_items (JNum NaN # replicate 767 (JNum (Finite 5))) = replicate 767 (Finite 5)"
    using numeric_items_replicate[of 767 5] by (simp add: numeric_items_def)
  have f: "to_float32 (Finite 5) = Finite 5" "to_float32 (Finite 0) = Finite 0"
    unfolding to_float32.simps FLOAT32_OVERFLOW_def by simp_all
  show "faiss_vectors (index (fst (addToIndex (createFAISSIndex None)
       [chunk_of (JArr (JNum NaN # replicate 767 (JNum (Finite 5))))])))
   = [replicate 767 (Finite 5) @ [Finite 0]]"
    by (simp add: addToIndex_def createFAISSIndex_def chunk_of_def process_embedding_def
        to_processed_def faiss_add_def EMBEDDING_DIMENSION_def n f list_ex_iff)
  show "faiss_vectors (index (fst (addToIndex (createFAISSIndex None)
       [chunk_of (JObj [(''values'', JF32 [Finite 1, Finite 2])])])))
   = []"
    by (simp add: addToIndex_def createFAISSIndex_def chunk_of_def process_embedding_def
        to_processed_def)
qed

section \<open>Insertion-ordered maps\<close>

lemma map_of_map_set:
  "map_of (map_set m k v) k' = (if k' = k then Some v else map_of m k')"
  by (induction m) auto

lemma map_set_twice: "map_set (map_set m k u) k v = map_set m k v"
  by (induction m) auto

lemma keys_map_set_in: "k \<in> fst ` set m \<Longrightarrow> map fst (map_set m k v) = map fst m"
  by (induction m) force+

lemma keys_map_set_notin:
  "k \<notin> fst ` set m \<Longrightarrow> map fst (map_set m k v) = map fst m @ [k]"
  by (induction m) auto

lemma keys_map_set:
  "map fst (map_set m k v) = (if k \<in> fst ` set m then map fst m else map fst m @ [k])"
  by (simp add: keys_map_set_in keys_map_set_notin)

lemma distinct_map_set:
  "distinct (map fst m) \<Longrightarrow> distinct (map fst (map_set m k v))"
  by (simp add: keys_map_set)

section \<open>The loop of groupResultsByFile\<close>

lemma group_inv_step_drop:
  assumes "group_inv seen m" "result_path r = None"
  shows "group_inv (seen @ [r]) m"
  using assms by (auto simp: group_inv_def group_spec_def)

lemma group_spec_other:
  "result_path r \<noteq> Some p \<Longrightarrow> group_spec (seen @ [r]) p = group_spec seen p"
  by (simp add: group_spec_def)

lemma group_spec_first:
  assumes "result_path r = Some p" "sr_metadata r = Some md"
    "filter (\<lambda>r. result_path r = Some p) seen = []"
  shows "group_spec (seen @ [r]) p
     = (new_group p (sm_fileName md))\<lparr>chunks := [r], totalScore := 0 + combinedScore r,
          maxScore := max 0 (combinedScore r)\<rparr>"
  using assms by (simp add: group_spec_def new_group_def)

lemma group_spec_next:
  assumes "result_path r = Some p"
    "filter (\<lambda>r. result_path r = Some p) seen \<noteq> []"
  shows "group_spec (seen @ [r]) p
     = (group_spec seen p)\<lparr>chunks := chunks (group_spec seen p) @ [r],
          totalScore := totalScore (group_spec seen p) + combinedScore r,
          maxScore := max (maxScore (group_spec seen p)) (combinedScore r)\<rparr>"
  using assms by (simp add: group_spec_def Let_def)

lemma group_inv_step_keep:
  assumes inv: "group_inv seen m" and p: "result_path r = Some p" and md: "sr_metadata r = Some md"
  shows "group_inv (seen @ [r])
           (map_set m p
              ((\<lambda>g. g\<lparr>chunks := chunks g @ [r], totalScore := totalScore g + combinedScore r,
                      maxScore := max (maxScore g) (combinedScore r)\<rparr>)
               (case map_of m p of None \<Rightarrow> new_group p (sm_fileName md) | Some g \<Rightarrow> g)))"
proof -
  let ?f = "\<lambda>g. g\<lparr>chunks := chunks g @ [r], totalScore := totalScore g + combinedScore r,
                      maxScore := max (maxScore g) (combinedScore r)\<rparr>"
  let ?g = "?f (case map_of m p of None \<Rightarrow> new_group p (sm_fileName md) | Some g \<Rightarrow> g)"
  have d: "distinct (map fst (map_set m p ?g))"
    using inv by (simp add: group_inv_def distinct_map_set)
  have g: "?g = group_spec (seen @ [r]) p"
  proof (cases "filter (\<lambda>r. result_path r = Some p) seen = []")
    case True
    with inv have "map_of m p = None" by (simp add: group_inv_def)
    with group_spec_first[OF p md True] show ?thesis by (simp add: new_group_def)
  next
    case False
    with inv have "map_of m p = Some (group_spec seen p)" by (simp add: group_inv_def)
    with group_spec_next[OF p False] show ?thesis by simp
  qed
  have "map_of (map_set m p ?g) q =
         (if filter (\<lambda>r. result_path r = Some q) (seen @ [r]) = [] then None
          else Some (group_spec (seen @ [r]) q))" for q
  proof (cases "q = p")
    case True
    with g p show ?thesis by (simp add: map_of_map_set)
  next
    case False
    with p have np: "result_path r \<noteq> Some q" by auto
    with inv False show ?thesis
      by (simp add: map_of_map_set group_inv_def group_spec_other)
  qed
  with d show ?thesis unfolding group_inv_def by blast
qed

lemma group_loop_inv:
  "group_inv seen m \<Longrightarrow> group_inv (seen @ rs) (group_loop rs m)"
proof (induction rs arbitrary: seen m)
  case Nil
  then show ?case by simp
next
  case (Cons r rs)
  show ?case
  proof (cases "result_path r")
    case None
    from group_inv_step_drop[OF Cons.prems None] have "group_inv (seen @ [r]) m" .
    from Cons.IH[OF this] have "group_inv (seen @ r # rs) (group_loop rs m)" by simp
    moreover from None have "group_loop (r # rs) m = group_loop rs m"
      by (auto simp: result_path_def split: option.splits if_splits)
    ultimately show ?thesis by simp
  next
    case (Some p)
    then obtain md where md: "sr_metadata r = Some md" "sm_filePath md = p" "p \<noteq> []"
      by (auto simp: result_path_def split: option.splits if_splits)
    let ?m = "map_set m p
              ((\<lambda>g. g\<lparr>chunks := chunks g @ [r], totalScore := totalScore g + combinedScore r,
                      maxScore := max (maxScore g) (combinedScore r)\<rparr>)
               (case map_of m p of None \<Rightarrow> new_group p (sm_fileName md) | Some g \<Rightarrow> g))"
    from group_inv_step_keep[OF Cons.prems Some md(1)] have "group_inv (seen @ [r]) ?m" .
    from Cons.IH[OF this] have "group_inv (seen @ r # rs) (group_loop rs ?m)" by simp
    moreover have "group_loop (r # rs) m = group_loop rs ?m"
      using md by (cases "map_of m p")
        (simp_all add: Let_def map_has_def map_of_map_set map_set_twice)
    ultimately show ?thesis by simp
  qed
qed

lemma group_loop_result: "group_inv rs (group_loop rs [])"
  using group_loop_inv[of "[]" "[]" rs] by (simp add: group_inv_def)


lemma foldl_max_Max: "foldl max a xs = Max (insert (a::real) (set xs))"
proof (induction xs arbitrary: a)
  case Nil
  then show ?case by simp
next
  case (Cons x xs)
  have "Max (insert a (set (x # xs))) = Max (insert (max a x) (set xs))"
  proof (cases "xs = []")
    case True
    then show ?thesis by (simp add: max.commute)
  next
    case False
    then have "Max (insert a (insert x (set xs))) = max a (max x (Max (set xs)))" by simp
    also have "\<dots> = max (max a x) (Max (set xs))" by (simp add: max.assoc)
    also have "\<dots> = Max (insert (max a x) (set xs))" using False by simp
    finally show ?thesis by simp
  qed
  with Cons.IH[of "max a x"] show ?case by simp
qed


lemma group_entries:
  assumes "group_inv rs m"
  shows "(p, g) \<in> set m \<longleftrightarrow> filter (\<lambda>r. result_path r = Some p) rs \<noteq> [] \<and> g = group_spec rs p"
proof -
  from assms have d: "distinct (map fst m)" by (simp add: group_inv_def)
  from assms have "map_of m p = (if filter (\<lambda>r. result_path r = Some p) rs = [] then None
          else Some (group_spec rs p))" by (simp add: group_inv_def)
  with map_of_eq_Some_iff[OF d, of p g] show ?thesis by (auto split: if_splits)
qed


section \<open>Indices built by adding documents\<close>

lemma count_terms_step:
  "count_terms (t # ts) tf
     = count_terms ts (map_set tf t (case map_of tf t of None \<Rightarrow> 1 | Some n \<Rightarrow> n + 1))"
  by (cases "map_of tf t") (simp_all add: map_has_def Let_def map_of_map_set map_set_twice)

lemma add_postings_step:
  "add_postings di ((t, f) # tf) ix
     = add_postings di tf
         (ix(t \<mapsto> (case ix t of None \<Rightarrow> [] | Some ps \<Rightarrow> ps) @ [\<lparr>docIndex = di, frequency = f\<rparr>]))"
  by (cases "ix t") (simp_all add: Let_def)

lemma map_of_count_terms:
  "map_of (count_terms ts tf) t =
     (if t \<in> set ts \<or> map_of tf t \<noteq> None
      then Some ((case map_of tf t of None \<Rightarrow> 0 | Some n \<Rightarrow> n) + count_list ts t)
      else None)"
proof (induction ts arbitrary: tf)
  case Nil
  then show ?case by (auto split: option.splits)
next
  case (Cons x ts)
  show ?case
    unfolding count_terms_step Cons.IH
    by (auto simp: map_of_map_set split: option.splits)
qed

lemma distinct_count_terms:
  "distinct (map fst tf) \<Longrightarrow> distinct (map fst (count_terms ts tf))"
proof (induction ts arbitrary: tf)
  case Nil
  then show ?case by simp
next
  case (Cons x ts)
  then show ?case unfolding count_terms_step by (intro Cons.IH distinct_map_set)
qed

lemma count_terms_entry:
  assumes "map_of (count_terms ts []) t = Some f"
  shows "t \<in> set ts \<and> 1 \<le> f \<and> f \<le> length ts"
proof -
  from assms have t: "t \<in> set ts" and f: "f = count_list ts t"
    by (auto simp: map_of_count_terms split: if_splits)
  from t have "count_list ts t \<noteq> 0" by (simp add: count_list_0_iff)
  with f t show ?thesis using count_le_length[of ts t] by simp
qed

lemma add_postings_apply:
  "distinct (map fst tf) \<Longrightarrow>
   add_postings di tf ix t =
     (case map_of tf t of
        None \<Rightarrow> ix t
      | Some f \<Rightarrow> Some ((case ix t of None \<Rightarrow> [] | Some ps \<Rightarrow> ps) @ [\<lparr>docIndex = di, frequency = f\<rparr>]))"
proof (induction tf arbitrary: ix)
  case Nil
  then show ?case by simp
next
  case (Cons e tf)
  obtain t' f' where e: "e = (t', f')" by (cases e)
  from Cons.prems e have n: "map_of tf t' = None" and d: "distinct (map fst tf)"
    by (auto simp: map_of_eq_None_iff)
  show ?case
    unfolding e add_postings_step Cons.IH[OF d]
    using n by (auto split: option.splits)
qed

lemma wf_index_new: "wf_index (BM25Index_new options)"
  by (simp add: wf_index_def BM25Index_new_def)

lemma wf_postings_old:
  assumes "wf_postings idx ps" "documentCount idx = length (documentLengths idx)"
    "documentCount idx' = Suc (documentCount idx)"
    "documentLengths idx' = documentLengths idx @ [n]"
  shows "wf_postings idx' ps"
  using assms by (auto simp: wf_postings_def nth_append)

lemma wf_postings_new:
  assumes "wf_postings idx ps" "documentCount idx = length (documentLengths idx)"
    "documentCount idx' = Suc (documentCount idx)"
    "documentLengths idx' = documentLengths idx @ [n]" "1 \<le> f" "f \<le> n"
  shows "wf_postings idx' (ps @ [\<lparr>docIndex = documentCount idx, frequency = f\<rparr>])"
  using assms by (auto simp: wf_postings_def nth_append sorted_wrt_append)

lemma wf_postings_Nil: "wf_postings idx []"
  by (simp add: wf_postings_def)

lemma wf_index_addDocument:
  assumes wf: "wf_index idx"
  shows "wf_index (addDocument idx d)"
proof (cases "documentMetadata idx (doc_id d) \<noteq> None")
  case True
  with wf show ?thesis by (simp add: addDocument_def)
next
  case False
  define tokens where "tokens = tokenize (tokenizationOptions idx) (doc_content d)"
  define idx' where "idx' = addDocument idx d"
  from wf have len: "documentCount idx = length (documents idx)"
    "length (documentLengths idx) = length (documents idx)" by (simp_all add: wf_index_def)
  have f1: "documents idx' = documents idx @ [(doc_id d, doc_content d)]"
    and f2: "documentMetadata idx' = (documentMetadata idx)(doc_id d \<mapsto> doc_metadata d)"
    and f3: "documentLengths idx' = documentLengths idx @ [length tokens]"
    and f4: "documentCount idx' = Suc (documentCount idx)"
    and f5: "averageDocumentLength idx' =
              (averageDocumentLength idx * real (documentCount idx) + real (length tokens))
                / real (Suc (documentCount idx))"
    and f6: "invertedIndex idx' =
              add_postings (documentCount idx) (count_terms tokens []) (invertedIndex idx)"
    using False len
    by (simp_all add: idx'_def addDocument_def Let_def tokens_def array_assign_def)
  from False wf have fresh: "doc_id d \<notin> fst ` set (documents idx)"
    by (auto simp: wf_index_def)
  have c1: "documentCount idx' = length (documents idx')" using f1 f4 len by simp
  have c2: "length (documentLengths idx') = length (documents idx')" using f1 f3 len by simp
  have c3: "distinct (map fst (documents idx'))" using f1 fresh wf by (simp add: wf_index_def)
  have c4: "dom (documentMetadata idx') = fst ` set (documents idx')"
    using f1 f2 wf by (auto simp: wf_index_def)
  have avg: "averageDocumentLength idx * real (documentCount idx) = real (sum_list (documentLengths idx))"
    and nn: "0 \<le> averageDocumentLength idx"
    using wf unfolding wf_index_def by blast+
  have c5: "averageDocumentLength idx' * real (documentCount idx') = real (sum_list (documentLengths idx'))"
    unfolding f5 f4 f3 avg by simp
  have c6: "0 \<le> averageDocumentLength idx'"
    unfolding f5 avg by simp
  have c7: "wf_postings idx' ps" if ps: "invertedIndex idx' t = Some ps" for t ps
  proof -
    have d: "distinct (map fst (count_terms tokens []))" by (rule distinct_count_terms) simp
    have old: "wf_postings idx qs" if "invertedIndex idx t = Some qs" for qs
      using wf that by (auto simp: wf_index_def)
    have cl: "documentCount idx = length (documentLengths idx)" using len by simp
    show ?thesis
    proof (cases "map_of (count_terms tokens []) t")
      case None
      with ps have "invertedIndex idx t = Some ps" by (simp add: f6 add_postings_apply[OF d])
      from wf_postings_old[OF old[OF this] cl f4 f3] show ?thesis .
    next
      case (Some f)
      from count_terms_entry[OF Some] have fb: "1 \<le> f" "f \<le> length tokens" by simp_all
      show ?thesis
      proof (cases "invertedIndex idx t")
        case None
        with Some ps have "ps = [] @ [\<lparr>docIndex = documentCount idx, frequency = f\<rparr>]"
          by (simp add: f6 add_postings_apply[OF d])
        with wf_postings_new[OF wf_postings_Nil cl f4 f3 fb] show ?thesis by simp
      next
        case (Some qs)
        with \<open>map_of (count_terms tokens []) t = Some f\<close> ps
        have "ps = qs @ [\<lparr>docIndex = documentCount idx, frequency = f\<rparr>]"
          by (simp add: f6 add_postings_apply[OF d])
        with wf_postings_new[OF old[OF Some] cl f4 f3 fb] show ?thesis by simp
      qed
    qed
  qed
  from c1 c2 c3 c4 c5 c6 c7 show ?thesis unfolding idx'_def[symmetric] wf_index_def by blast
qed

lemma wf_index_addDocuments: "wf_index idx \<Longrightarrow> wf_index (addDocuments idx docs)"
  unfolding addDocuments_def
  by (induction docs arbitrary: idx) (auto intro: wf_index_addDocument)

lemma wf_index_reachable: "wf_index (addDocuments (BM25Index_new options) docs)"
  by (intro wf_index_addDocuments wf_index_new)

lemma present_iff_documents:
  "(documentMetadata (addDocuments (BM25Index_new options) docs) i \<noteq> None)
     = (i \<in> fst ` set (documents (addDocuments (BM25Index_new options) docs)))"
  using wf_index_reachable[of options docs] unfolding wf_index_def by blast

section \<open>Properties of the BM25 search\<close>

lemma sorted_less_length:
  assumes "sorted_wrt (<) (xs :: nat list)" "\<forall>x \<in> set xs. x < n"
  shows "length xs \<le> n"
proof -
  from assms(1) have "distinct xs" by (simp add: strict_sorted_iff)
  then have "length xs = card (set xs)" by (simp add: distinct_card)
  also from assms(2) have "\<dots> \<le> card {..<n}" by (intro card_mono) auto
  finally show ?thesis by simp
qed

lemma wf_postings_length:
  "wf_postings idx ps \<Longrightarrow> length ps \<le> documentCount idx"
  unfolding wf_postings_def by (rule sorted_less_length[of "map docIndex ps", simplified]) auto

lemma score_step:
  "(let scores' = (if \<not> map_has scores i then map_set scores i 0 else scores)
    in map_set scores' i (the (map_of scores' i) + s)) = add_score scores i s"
  by (cases "map_of scores i") (simp_all add: add_score_def map_has_def map_of_map_set map_set_twice)

lemma score_postings_ok:
  "\<forall>p \<in> set ps. docIndex p < length (documents idx) \<Longrightarrow>
   score_postings idx idf ps scores
     = Inr (fold (\<lambda>(i, s) sc. add_score sc i s)
              (map (\<lambda>p. (doc_ident idx p, calculateBM25Score idx (docIndex p) (frequency p) idf)) ps)
              scores)"
proof (induction ps arbitrary: scores)
  case Nil
  then show ?case by simp
next
  case (Cons p ps)
  then show ?case
    by (simp add: Let_def doc_ident_def score_step[unfolded Let_def])
qed

lemma score_terms_ok:
  assumes "wf_index idx"
  shows "score_terms idx ts scores
           = Inr (fold (\<lambda>(i, s) sc. add_score sc i s) (score_events idx ts) scores)"
proof (induction ts arbitrary: scores)
  case Nil
  then show ?case by (simp add: score_events_def)
next
  case (Cons t ts)
  show ?case
  proof (cases "invertedIndex idx t")
    case None
    with Cons.IH show ?thesis by (simp add: score_events_def)
  next
    case (Some ps)
    with assms have "wf_postings idx ps" by (auto simp: wf_index_def)
    with assms have "\<forall>p \<in> set ps. docIndex p < length (documents idx)"
      by (auto simp: wf_postings_def wf_index_def)
    from score_postings_ok[OF this] Some Cons.IH show ?thesis
      by (simp add: score_events_def)
  qed
qed

lemma keys_add_score: "map fst (add_score sc i s) = add_key (map fst sc) i"
  by (simp add: add_score_def add_key_def keys_map_set)

lemma keys_fold_add_score:
  "map fst (fold (\<lambda>(i, s) sc. add_score sc i s) es sc)
     = fold (\<lambda>i ks. add_key ks i) (map fst es) (map fst sc)"
  by (induction es arbitrary: sc) (auto simp: keys_add_score)

lemma distinct_fold_add_key:
  "distinct ks \<Longrightarrow> distinct (fold (\<lambda>i ks. add_key ks i) js ks)"
  by (induction js arbitrary: ks) (auto simp: add_key_def)

lemma set_fold_add_key:
  "set (fold (\<lambda>i ks. add_key ks i) js ks) = set ks \<union> set js"
  by (induction js arbitrary: ks) (auto simp: add_key_def)

lemma set_map_set_subset: "set (map_set m k v) \<subseteq> insert (k, v) (set m)"
  by (induction m) (auto split: if_splits)

lemma values_add_score:
  assumes "\<forall>e \<in> set sc. 0 \<le> snd e" "0 \<le> s"
  shows "\<forall>e \<in> set (add_score sc i s). 0 \<le> snd e"
proof -
  have "0 \<le> (case map_of sc i of None \<Rightarrow> 0 | Some x \<Rightarrow> x)"
  proof (cases "map_of sc i")
    case None
    then show ?thesis by simp
  next
    case (Some x)
    then have "(i, x) \<in> set sc" by (rule map_of_SomeD)
    with assms(1) Some show ?thesis by force
  qed
  with assms show ?thesis
    using set_map_set_subset[of sc i "(case map_of sc i of None \<Rightarrow> 0 | Some x \<Rightarrow> x) + s"]
    unfolding add_score_def by fastforce
qed

lemma values_fold_add_score:
  "\<forall>e \<in> set sc. 0 \<le> snd e \<Longrightarrow> \<forall>e \<in> set es. 0 \<le> snd e \<Longrightarrow>
   \<forall>e \<in> set (fold (\<lambda>(i, s) sc. add_score sc i s) es sc). 0 \<le> snd e"
proof (induction es arbitrary: sc)
  case Nil
  then show ?case by simp
next
  case (Cons e es)
  obtain i s where e: "e = (i, s)" by (cases e)
  from Cons.prems e have "\<forall>e \<in> set (add_score sc i s). 0 \<le> snd e"
    by (intro values_add_score) auto
  from Cons.IH[OF this] Cons.prems(2) e show ?case by simp
qed

lemma add_score_fresh:
  "i \<notin> fst ` set sc \<Longrightarrow> add_score sc i s = sc @ [(i, s)]"
proof (induction sc)
  case Nil
  then show ?case by (simp add: add_score_def)
next
  case (Cons e sc)
  then have "i \<noteq> fst e" "i \<notin> fst ` set sc" by auto
  with Cons.IH have "add_score sc i s = sc @ [(i, s)]" by simp
  moreover have "map_of (e # sc) i = map_of sc i" using \<open>i \<noteq> fst e\<close> by (cases e) auto
  ultimately show ?case using \<open>i \<noteq> fst e\<close> by (cases e) (auto simp: add_score_def)
qed

lemma fold_add_score_fresh:
  "distinct (map fst es) \<Longrightarrow> fst ` set es \<inter> fst ` set sc = {} \<Longrightarrow>
   fold (\<lambda>(i, s) sc. add_score sc i s) es sc = sc @ es"
proof (induction es arbitrary: sc)
  case Nil
  then show ?case by simp
next
  case (Cons e es)
  obtain i s where e: "e = (i, s)" by (cases e)
  from Cons.prems e have fr: "i \<notin> fst ` set sc" by auto
  have "fst ` set es \<inter> fst ` set (sc @ [(i, s)]) = {}"
    using Cons.prems e by auto
  moreover have "distinct (map fst es)" using Cons.prems by simp
  ultimately have "fold (\<lambda>(i, s) sc. add_score sc i s) es (sc @ [(i, s)]) = (sc @ [(i, s)]) @ es"
    by (rule Cons.IH[rotated])
  then show ?case by (simp add: e add_score_fresh[OF fr])
qed

lemma before_filter: "before (filter P xs) x y \<Longrightarrow> before xs x y"
  by (induction xs) (auto split: if_splits)

lemma before_filter_conv: "before xs x y \<Longrightarrow> P x \<Longrightarrow> P y \<Longrightarrow> before (filter P xs) x y"
  by (induction xs) auto

lemma before_take: "before (take n xs) x y \<Longrightarrow> before xs x y"
proof (induction xs arbitrary: n)
  case Nil
  then show ?case by simp
next
  case (Cons z zs)
  then show ?case by (cases n) (auto dest: in_set_takeD)
qed

lemma before_map: "before xs x y \<Longrightarrow> before (map f xs) (f x) (f y)"
  by (induction xs) auto

lemma before_sort_stable:
  assumes "before (sort_key f xs) x y" "f x = f y"
  shows "before xs x y"
proof -
  from assms have "before (filter (\<lambda>z. f z = f x) (sort_key f xs)) x y"
    by (intro before_filter_conv) auto
  then have "before (filter (\<lambda>z. f z = f x) xs) x y" by (simp only: sort_key_stable)
  then show ?thesis by (rule before_filter)
qed

lemma sorted_desc_take_sort:
  "sorted_wrt (\<ge>) (map f (take n (sort_key (\<lambda>x. - f x) xs)))" for f :: "'a \<Rightarrow> real"
proof -
  have "sorted (map (\<lambda>x. - f x) (sort_key (\<lambda>x. - f x) xs))" by (rule sorted_sort_key)
  then have "sorted_wrt (\<ge>) (map f (sort_key (\<lambda>x. - f x) xs))"
    by (simp add: sorted_wrt_map)
  then have "sorted_wrt (\<ge>) (take n (map f (sort_key (\<lambda>x. - f x) xs)))"
    by (rule sorted_wrt_take)
  then show ?thesis by (simp add: take_map)
qed

lemma idf_nonneg:
  assumes "wf_index idx" "0 \<le> epsilon idx"
  shows "0 \<le> calculateIDF idx t"
proof -
  define n where "n = (case invertedIndex idx t of None \<Rightarrow> 0 | Some ps \<Rightarrow> length ps)"
  have "n \<le> documentCount idx"
  proof (cases "invertedIndex idx t")
    case None
    then show ?thesis by (simp add: n_def)
  next
    case (Some ps)
    with assms(1) have "wf_postings idx ps" by (auto simp: wf_index_def)
    from wf_postings_length[OF this] Some show ?thesis by (simp add: n_def)
  qed
  then have "0 \<le> (real (documentCount idx) - real n + 0.5) / (real n + 0.5)" by simp
  with assms(2) have "1 \<le> 1 + (real (documentCount idx) - real n + 0.5) / (real n + 0.5) + epsilon idx"
    by linarith
  then show ?thesis unfolding calculateIDF_def Let_def n_def[symmetric] by simp
qed

lemma score_nonneg:
  assumes "0 \<le> idf" "0 \<le> k1 idx" "0 \<le> b idx" "b idx \<le> 1" "0 \<le> averageDocumentLength idx"
  shows "0 \<le> calculateBM25Score idx di f idf"
proof -
  have "0 \<le> b idx * (real (documentLengths idx ! di) / averageDocumentLength idx)"
    using assms by simp
  with assms have "0 \<le> k1 idx * (1 - b idx + b idx * (real (documentLengths idx ! di) / averageDocumentLength idx))"
    by (intro mult_nonneg_nonneg) auto
  then have d: "0 \<le> real f + k1 idx * (1 - b idx + b idx * (real (documentLengths idx ! di) / averageDocumentLength idx))"
    by simp
  have n: "0 \<le> real f * (k1 idx + 1)" using assms by simp
  from n d have "0 \<le> real f * (k1 idx + 1)
      / (real f + k1 idx * (1 - b idx + b idx * (real (documentLengths idx ! di) / averageDocumentLength idx)))"
    by (rule divide_nonneg_nonneg)
  with assms(1) show ?thesis unfolding calculateBM25Score_def Let_def
    by (rule mult_nonneg_nonneg)
qed

lemma score_events_keys:
  assumes "wf_index idx"
  shows "fst ` set (score_events idx ts) \<subseteq> fst ` set (documents idx)"
proof
  fix i assume "i \<in> fst ` set (score_events idx ts)"
  then obtain t ps p where "invertedIndex idx t = Some ps" "p \<in> set ps" "i = doc_ident idx p"
    by (auto simp: score_events_def split: option.splits) metis
  moreover with assms have "docIndex p < length (documents idx)"
    by (auto simp: wf_index_def wf_postings_def)
  ultimately show "i \<in> fst ` set (documents idx)"
    by (auto simp: doc_ident_def intro!: image_eqI[of _ fst "documents idx ! docIndex p"])
qed

lemma score_events_nonneg:
  assumes "wf_index idx" "0 \<le> k1 idx" "0 \<le> b idx" "b idx \<le> 1" "0 \<le> epsilon idx"
  shows "\<forall>e \<in> set (score_events idx ts). 0 \<le> snd e"
proof -
  from assms(1) have a: "0 \<le> averageDocumentLength idx" by (simp add: wf_index_def)
  have "0 \<le> calculateBM25Score idx di f (calculateIDF idx t)" for di f t
    by (intro score_nonneg idf_nonneg assms a)
  then show ?thesis by (auto simp: score_events_def split: option.splits)
qed

lemma search_eq:
  assumes "wf_index idx"
  shows "search idx query k
     = Inr (js_slice0 k (sort_desc res_score
              (map (\<lambda>(docId, score). \<lparr>res_id = docId, res_score = score,
                                       res_metadata = documentMetadata idx docId\<rparr>)
                 (fold (\<lambda>(i, s) sc. add_score sc i s)
                    (score_events idx (tokenize (tokenizationOptions idx) query)) []))))"
  by (simp add: search_def score_terms_ok[OF assms])

text \<open>
  C5 (as the code behaves): on an index built by the constructor and \<open>addDocument\<close>, with
  parameters \<open>k1 \<ge> 0\<close>, \<open>0 \<le> b \<le> 1\<close>, \<open>\<epsilon> \<ge> 0\<close> and a limit \<open>k \<ge> 0\<close>, the search
  returns; its results are ordered by descending score, no score is negative, and there
  are at most \<open>min(k, N)\<close> of them.  Of two results with equal scores the one listed first
  is the one whose document was scored first: documents are scored query term by query
  term, the postings of one term in document order (\<open>first_scored\<close>).
\<close>

theorem search_properties:
  assumes idx: "idx = addDocuments (BM25Index_new options) docs"
    and par: "0 \<le> k1 idx" "0 \<le> b idx" "b idx \<le> 1" "0 \<le> epsilon idx"
    and k: "0 \<le> k"
  shows "\<exists>rs. search idx query k = Inr rs
           \<and> sorted_wrt (\<ge>) (map res_score rs)
           \<and> (\<forall>r \<in> set rs. 0 \<le> res_score r)
           \<and> length rs \<le> min (nat k) (documentCount idx)
           \<and> (\<forall>r r'. before rs r r' \<and> res_score r = res_score r'
                  \<longrightarrow> before (first_scored idx query) (res_id r) (res_id r'))"
proof -
  have wf: "wf_index idx" unfolding idx by (rule wf_index_reachable)
  define es where "es = score_events idx (tokenize (tokenizationOptions idx) query)"
  define sc where "sc = fold (\<lambda>(i, s) sc. add_score sc i s) es []"
  define mk where "mk = (\<lambda>(docId, score). \<lparr>res_id = docId, res_score = score,
                                       res_metadata = documentMetadata idx docId\<rparr>)"
  define us where "us = map mk sc"
  define rs where "rs = take (nat k) (sort_key (\<lambda>r. - res_score r) us)"
  have s: "search idx query k = Inr rs"
    using k by (simp add: search_eq[OF wf] rs_def us_def mk_def sc_def es_def js_slice0_def
        sort_desc_def)
  have keys: "map fst sc = first_scored idx query"
    by (simp add: sc_def es_def first_scored_def keys_fold_add_score)
  have ids: "map res_id us = map fst sc"
    by (simp add: us_def mk_def case_prod_beta)
  have scs: "map res_score us = map snd sc"
    by (simp add: us_def mk_def case_prod_beta)
  have c1: "sorted_wrt (\<ge>) (map res_score rs)"
    unfolding rs_def by (rule sorted_desc_take_sort)
  have nn: "\<forall>e \<in> set sc. 0 \<le> snd e"
    unfolding sc_def es_def
    by (intro values_fold_add_score score_events_nonneg wf par) simp
  have c2: "\<forall>r \<in> set rs. 0 \<le> res_score r"
  proof
    fix r assume "r \<in> set rs"
    then have "r \<in> set us" by (auto simp: rs_def dest: in_set_takeD)
    then have "res_score r \<in> set (map snd sc)" unfolding scs[symmetric] by simp
    with nn show "0 \<le> res_score r" by auto
  qed
  have d: "distinct (map fst sc)"
    unfolding keys first_scored_def by (rule distinct_fold_add_key) simp
  have l1: "length sc = card (set (map fst sc))"
    using distinct_card[OF d] by simp
  have l2: "set (map fst sc) = fst ` set es"
    unfolding keys first_scored_def es_def by (simp add: set_fold_add_key)
  have l3: "card (fst ` set es) \<le> card (fst ` set (documents idx))"
    unfolding es_def by (intro card_mono score_events_keys wf) simp
  have l4: "card (fst ` set (documents idx)) \<le> length (documents idx)"
    by (rule le_trans[OF card_image_le card_length]) simp
  have l5: "length (documents idx) = documentCount idx" using wf by (simp add: wf_index_def)
  from l1 l2 l3 l4 l5 have "length sc \<le> documentCount idx" by simp
  then have c3: "length rs \<le> min (nat k) (documentCount idx)"
    by (simp add: rs_def us_def)
  have c4: "before (first_scored idx query) (res_id r) (res_id r')"
    if "before rs r r'" "res_score r = res_score r'" for r r'
  proof -
    from that(1) have "before (sort_key (\<lambda>r. - res_score r) us) r r'"
      unfolding rs_def by (rule before_take)
    moreover from that(2) have "- res_score r = - res_score r'" by simp
    ultimately have "before us r r'" by (rule before_sort_stable)
    then have "before (map res_id us) (res_id r) (res_id r')" by (rule before_map)
    then show ?thesis by (simp only: ids keys)
  qed
  show ?thesis
  proof (intro exI[of _ rs] conjI allI impI)
    fix r r' assume "before rs r r' \<and> res_score r = res_score r'"
    then show "before (first_scored idx query) (res_id r) (res_id r')" using c4 by simp
  qed (rule s c1 c2 c3)+
qed

section \<open>BM25 scenarios\<close>

lemma new_fields:
  "tokenizationOptions (BM25Index_new no_options) = default_tokenization"
  "documentMetadata (BM25Index_new no_options) = Map.empty"
  "documents (BM25Index_new no_options) = []"
  "documentLengths (BM25Index_new no_options) = []"
  "documentCount (BM25Index_new no_options) = 0"
  "averageDocumentLength (BM25Index_new no_options) = 0"
  "invertedIndex (BM25Index_new no_options) = Map.empty"
  "k1 (BM25Index_new no_options) = 1.2"
  "b (BM25Index_new no_options) = 0.75"
  "epsilon (BM25Index_new no_options) = 0.25"
  by (simp_all add: BM25Index_new_def no_options_def default_tokenization_def DEFAULT_K1_def
      DEFAULT_B_def DEFAULT_EPSILON_def)

lemma tokens_examples:
  "tokenize default_tokenization (doc_content doc1)
     = [''foo'', ''foo'', ''alpha'', ''beta'', ''gamma'', ''delta'', ''epsilon'', ''zeta'', ''eta'', ''theta'']"
  "tokenize default_tokenization ''foo'' = [''foo'']"
  "tokenize default_tokenization ''beta'' = [''beta'']"
  "tokenize default_tokenization ''alpha'' = [''alpha'']"
  "tokenize default_tokenization ''alpha beta'' = [''alpha'', ''beta'']"
  "tokenize default_tokenization ''foo foo'' = [''foo'', ''foo'']"
  by code_simp+

lemma count_doc1:
  "count_terms [''foo'', ''foo'', ''alpha'', ''beta'', ''gamma'', ''delta'', ''epsilon'', ''zeta'', ''eta'', ''theta''] []
   = [(''foo'', 2), (''alpha'', 1), (''beta'', 1), (''gamma'', 1), (''delta'', 1), (''epsilon'', 1),
      (''zeta'', 1), (''eta'', 1), (''theta'', 1)]"
  by (simp add: count_terms_step del: count_terms.simps(2))

lemma idx1_fields:
  "documents idx1 = [(doc_id doc1, doc_content doc1)]"
  "documentLengths idx1 = [10]"
  "documentCount idx1 = 1"
  "averageDocumentLength idx1 = 10"
  "k1 idx1 = 1.2" "b idx1 = 0.75" "epsilon idx1 = 0.25"
  "tokenizationOptions idx1 = default_tokenization"
  "documentMetadata idx1 (doc_id doc1) = Some (doc_metadata doc1)"
  "invertedIndex idx1 ''foo'' = Some [\<lparr>docIndex = 0, frequency = 2\<rparr>]"
  unfolding idx1_def addDocuments_def fold_simps addDocument_def
  by (simp_all add: new_fields tokens_examples count_doc1 add_postings_step Let_def array_assign_def
      del: add_postings.simps(2) count_terms.simps(2))

lemma search_idx1:
  "search idx1 ''foo'' 5 = Inr [\<lparr>res_id = doc_id doc1, res_score = ln (1 + 1/3 + 0.25) * (4.4 / 3.2),
      res_metadata = Some (doc_metadata doc1)\<rparr>]"
  by (simp add: search_def idx1_fields tokens_examples calculateIDF_def calculateBM25Score_def map_has_def
      js_slice0_def sort_desc_def Let_def)

lemma idx_beta_fields:
  "documents idx_beta = [(''/p/b.ts:1-1'', ''beta'')]"
  "documentLengths idx_beta = [1]"
  "documentCount idx_beta = 1"
  "averageDocumentLength idx_beta = 1"
  "k1 idx_beta = 1.2" "b idx_beta = 0.75" "epsilon idx_beta = 0.25"
  "tokenizationOptions idx_beta = default_tokenization"
  "documentMetadata idx_beta = [''/p/b.ts:1-1'' \<mapsto> meta_of ''b.ts'']"
  "invertedIndex idx_beta = [''beta'' \<mapsto> [\<lparr>docIndex = 0, frequency = 1\<rparr>]]"
  unfolding idx_beta_def addDocument_def
  by (simp_all add: new_fields doc_beta_def tokens_examples count_terms_step add_postings_step
      Let_def array_assign_def del: add_postings.simps(2) count_terms.simps(2))

lemma idx2_eq: "idx2 = addDocument idx_beta doc_alpha"
  by (simp add: idx2_def idx_beta_def addDocuments_def)

lemma idx2_fields:
  "documents idx2 = [(''/p/b.ts:1-1'', ''beta''), (''/p/a.ts:1-1'', ''alpha'')]"
  "documentLengths idx2 = [1, 1]"
  "documentCount idx2 = 2"
  "averageDocumentLength idx2 = 1"
  "k1 idx2 = 1.2" "b idx2 = 0.75" "epsilon idx2 = 0.25"
  "tokenizationOptions idx2 = default_tokenization"
  "documentMetadata idx2 = [''/p/b.ts:1-1'' \<mapsto> meta_of ''b.ts'', ''/p/a.ts:1-1'' \<mapsto> meta_of ''a.ts'']"
  "invertedIndex idx2 = [''beta'' \<mapsto> [\<lparr>docIndex = 0, frequency = 1\<rparr>],
                         ''alpha'' \<mapsto> [\<lparr>docIndex = 1, frequency = 1\<rparr>]]"
  unfolding idx2_eq addDocument_def
  by (simp_all add: idx_beta_fields doc_alpha_def tokens_examples count_terms_step add_postings_step
      Let_def array_assign_def del: add_postings.simps(2) count_terms.simps(2))

lemma search_idx2:
  "search idx2 ''alpha beta'' 2
     = Inr [\<lparr>res_id = ''/p/a.ts:1-1'', res_score = ln (9 / 4), res_metadata = Some (meta_of ''a.ts'')\<rparr>,
            \<lparr>res_id = ''/p/b.ts:1-1'', res_score = ln (9 / 4), res_metadata = Some (meta_of ''b.ts'')\<rparr>]"
  by (simp add: search_def idx2_fields tokens_examples calculateIDF_def calculateBM25Score_def map_has_def
      js_slice0_def sort_desc_def Let_def)

lemma search_idx2_neg:
  "search idx2 ''alpha beta'' (- 1)
     = Inr [\<lparr>res_id = ''/p/a.ts:1-1'', res_score = ln (9 / 4), res_metadata = Some (meta_of ''a.ts'')\<rparr>]"
  by (simp add: search_def idx2_fields tokens_examples calculateIDF_def calculateBM25Score_def map_has_def
      js_slice0_def sort_desc_def Let_def)

lemma idx3_fields:
  "documents idx3 = [(''/p/f.ts:1-1'', ''foo foo'')]"
  "documentLengths idx3 = [2]"
  "documentCount idx3 = 1"
  "averageDocumentLength idx3 = 2"
  "k1 idx3 = - 1.5" "b idx3 = 0.75" "epsilon idx3 = 0.25"
  "tokenizationOptions idx3 = default_tokenization"
  "documentMetadata idx3 = [''/p/f.ts:1-1'' \<mapsto> meta_of ''f.ts'']"
  "invertedIndex idx3 = [''foo'' \<mapsto> [\<lparr>docIndex = 0, frequency = 2\<rparr>]]"
  unfolding idx3_def addDocuments_def fold_simps addDocument_def
  by (simp_all add: BM25Index_new_def no_options_def default_tokenization_def[symmetric]
      DEFAULT_B_def DEFAULT_EPSILON_def doc_foofoo_def tokens_examples count_terms_step
      add_postings_step Let_def array_assign_def numeral_2_eq_2 del: add_postings.simps(2) count_terms.simps(2))

lemma search_idx3:
  "search idx3 ''foo'' 5
     = Inr [\<lparr>res_id = ''/p/f.ts:1-1'', res_score = - (2 * ln (19 / 12)),
             res_metadata = Some (meta_of ''f.ts'')\<rparr>]"
  by (simp add: search_def idx3_fields tokens_examples calculateIDF_def calculateBM25Score_def map_has_def
      js_slice0_def sort_desc_def Let_def)

text \<open>
  Three inputs on which the statement without these provisos fails.  With the documents
  "beta" (index 0) and "alpha" (index 1) the query "alpha beta" gives both the same score
  and lists the document of index 1 first.  With the limit -1 the same query returns one
  result, which is more than \<open>min(-1, 2)\<close>.  With \<open>k1 = -1.5\<close> the document "foo foo" gets
  a negative score for the query "foo".
\<close>

theorem search_counterexample:
  "search idx2 ''alpha beta'' 2
     = Inr [\<lparr>res_id = ''/p/a.ts:1-1'', res_score = ln (9 / 4), res_metadata = Some (meta_of ''a.ts'')\<rparr>,
            \<lparr>res_id = ''/p/b.ts:1-1'', res_score = ln (9 / 4), res_metadata = Some (meta_of ''b.ts'')\<rparr>]
   \<and> documents idx2 = [(''/p/b.ts:1-1'', ''beta''), (''/p/a.ts:1-1'', ''alpha'')]
   \<and> search idx2 ''alpha beta'' (- 1)
     = Inr [\<lparr>res_id = ''/p/a.ts:1-1'', res_score = ln (9 / 4), res_metadata = Some (meta_of ''a.ts'')\<rparr>]
   \<and> search idx3 ''foo'' 5
     = Inr [\<lparr>res_id = ''/p/f.ts:1-1'', res_score = - (2 * ln (19 / 12)),
             res_metadata = Some (meta_of ''f.ts'')\<rparr>]
   \<and> - (2 * ln (19 / 12 :: real)) < 0"
  by (simp add: search_idx2 search_idx2_neg search_idx3 idx2_fields)

theorem search_properties_witness:
  "idx2 = addDocuments (BM25Index_new no_options) [doc_beta, doc_alpha]
   \<and> 0 \<le> k1 idx2 \<and> 0 \<le> b idx2 \<and> b idx2 \<le> 1 \<and> 0 \<le> epsilon idx2 \<and> (0 :: int) \<le> 2
   \<and> (\<exists>rs. search idx2 ''alpha beta'' 2 = Inr rs
           \<and> sorted_wrt (\<ge>) (map res_score rs)
           \<and> (\<forall>r \<in> set rs. 0 \<le> res_score r)
           \<and> length rs \<le> min (nat 2) (documentCount idx2)
           \<and> (\<forall>r r'. before rs r r' \<and> res_score r = res_score r'
                  \<longrightarrow> before (first_scored idx2 ''alpha beta'') (res_id r) (res_id r')))"
proof -
  have h: "idx2 = addDocuments (BM25Index_new no_options) [doc_beta, doc_alpha]"
    by (simp add: idx2_def)
  have p: "0 \<le> k1 idx2" "0 \<le> b idx2" "b idx2 \<le> 1" "0 \<le> epsilon idx2"
    by (simp_all add: idx2_fields)
  have k: "(0 :: int) \<le> 2" by simp
  from search_properties[OF h p k, of "''alpha beta''"] h p k show ?thesis by blast
qed

lemma distinct_doc_idents:
  assumes wf: "wf_index idx" and ps: "invertedIndex idx t = Some ps"
  shows "distinct (map (doc_ident idx) ps)"
proof -
  from wf ps have wp: "wf_postings idx ps" by (auto simp: wf_index_def)
  from wf have d: "distinct (map fst (documents idx))"
    and n: "documentCount idx = length (documents idx)" by (simp_all add: wf_index_def)
  from wp have di: "distinct (map docIndex ps)" by (simp add: wf_postings_def strict_sorted_iff)
  from wp n have lt: "\<forall>i \<in> set (map docIndex ps). i < length (map fst (documents idx))"
    by (auto simp: wf_postings_def)
  have "inj_on ((!) (map fst (documents idx))) (set (map docIndex ps))"
  proof (rule inj_onI)
    fix i j
    assume i: "i \<in> set (map docIndex ps)" and j: "j \<in> set (map docIndex ps)"
      and e: "map fst (documents idx) ! i = map fst (documents idx) ! j"
    from i j lt have "i < length (map fst (documents idx))" "j < length (map fst (documents idx))"
      by blast+
    with e d show "i = j" by (simp only: nth_eq_iff_index_eq)
  qed
  with di have "distinct (map ((!) (map fst (documents idx))) (map docIndex ps))"
    by (simp only: distinct_map)
  moreover have "map ((!) (map fst (documents idx))) (map docIndex ps) = map (doc_ident idx) ps"
    using lt by (auto simp: doc_ident_def)
  ultimately show ?thesis by (simp only:)
qed

lemma average_positive:
  assumes wf: "wf_index idx" and ps: "invertedIndex idx t = Some ps" and p: "p \<in> set ps"
  shows "0 < averageDocumentLength idx"
proof -
  from wf ps have wp: "wf_postings idx ps" by (auto simp: wf_index_def)
  with p have b: "docIndex p < documentCount idx" "1 \<le> documentLengths idx ! docIndex p"
    by (auto simp: wf_postings_def)
  from wf have l: "length (documentLengths idx) = documentCount idx"
    by (simp add: wf_index_def)
  from wf have a: "averageDocumentLength idx * real (documentCount idx) = real (sum_list (documentLengths idx))"
    and nn: "0 \<le> averageDocumentLength idx"
    unfolding wf_index_def by blast+
  from b l have "documentLengths idx ! docIndex p \<in> set (documentLengths idx)" by simp
  then have "documentLengths idx ! docIndex p \<le> sum_list (documentLengths idx)"
    by (simp add: member_le_sum_list)
  with b have "1 \<le> sum_list (documentLengths idx)" by simp
  then have "0 < real (sum_list (documentLengths idx))" by linarith
  with a have "averageDocumentLength idx * real (documentCount idx) \<noteq> 0" by (simp only:)
  then have "averageDocumentLength idx \<noteq> 0" by auto
  with nn show ?thesis by simp
qed

lemma map_of_add_score:
  "map_of (add_score sc i s) j
     = (if j = i then Some ((case map_of sc i of None \<Rightarrow> 0 | Some x \<Rightarrow> x) + s) else map_of sc j)"
  by (simp add: add_score_def map_of_map_set)

lemma map_of_fold_add_score:
  "map_of (fold (\<lambda>(i, s) sc. add_score sc i s) es sc) j
     = (if j \<in> fst ` set es \<or> map_of sc j \<noteq> None
        then Some ((case map_of sc j of None \<Rightarrow> 0 | Some x \<Rightarrow> x)
                   + sum_list (map snd (filter (\<lambda>e. fst e = j) es)))
        else None)"
proof (induction es arbitrary: sc)
  case Nil
  then show ?case by (auto split: option.splits)
next
  case (Cons e es)
  obtain i s where e: "e = (i, s)" by (cases e)
  show ?case
    unfolding e fold_simps prod.case Cons.IH
    by (auto simp: map_of_add_score split: option.splits)
qed

lemma assoc_list_by_keys:
  "distinct (map fst m) \<Longrightarrow> m = map (\<lambda>k. (k, the (map_of m k))) (map fst m)"
proof (induction m)
  case Nil
  then show ?case by simp
next
  case (Cons e m)
  obtain k v where e: "e = (k, v)" by (cases e)
  from Cons.prems e have k: "k \<notin> fst ` set m" and d: "distinct (map fst m)" by auto
  have "map (\<lambda>k'. (k', the (map_of ((k, v) # m) k'))) (map fst m)
      = map (\<lambda>k'. (k', the (map_of m k'))) (map fst m)"
    using k by (intro map_cong) auto
  with Cons.IH[OF d] show ?case unfolding e by simp
qed

lemma fold_add_score_totals:
  "fold (\<lambda>(i, s) sc. add_score sc i s) es []
     = map (\<lambda>i. (i, sum_list (map snd (filter (\<lambda>e. fst e = i) es))))
         (fold (\<lambda>i ks. add_key ks i) (map fst es) [])"
proof -
  let ?sc = "fold (\<lambda>(i, s) sc. add_score sc i s) es []"
  let ?ks = "fold (\<lambda>i ks. add_key ks i) (map fst es) []"
  have keys: "map fst ?sc = ?ks" by (simp add: keys_fold_add_score)
  have d: "distinct (map fst ?sc)" unfolding keys by (rule distinct_fold_add_key) simp
  have s: "set ?ks = fst ` set es" by (simp add: set_fold_add_key)
  have "?sc = map (\<lambda>k. (k, the (map_of ?sc k))) ?ks"
    using assoc_list_by_keys[OF d] unfolding keys .
  also have "\<dots> = map (\<lambda>i. (i, sum_list (map snd (filter (\<lambda>e. fst e = i) es)))) ?ks"
    using s by (intro map_cong) (auto simp: map_of_fold_add_score)
  finally show ?thesis .
qed

lemma score_events_Cons:
  "score_events idx (t # ts)
     = (case invertedIndex idx t of
          None \<Rightarrow> []
        | Some ps \<Rightarrow>
            map (\<lambda>p. (doc_ident idx p,
                      calculateBM25Score idx (docIndex p) (frequency p) (calculateIDF idx t))) ps)
       @ score_events idx ts"
  by (simp add: score_events_def)

lemma sum_filter_map:
  "sum_list (map snd (filter (\<lambda>e. fst e = i) (map (\<lambda>p. (f p, g p)) ps)))
     = sum_list (map g (filter (\<lambda>p. f p = i) ps))"
  by (induction ps) auto

lemma score_events_total:
  "sum_list (map snd (filter (\<lambda>e. fst e = i) (score_events idx ts)))
     = sum_list (map (\<lambda>(n, p).
           ln (1 + (real (documentCount idx) - real n + 0.5) / (real n + 0.5) + epsilon idx)
           * (real (frequency p) * (k1 idx + 1)
              / (real (frequency p)
                 + k1 idx * (1 - b idx
                     + b idx * (real (documentLengths idx ! docIndex p)
                                 / averageDocumentLength idx)))))
         (query_hits idx ts i))"
proof (induction ts)
  case Nil
  then show ?case by (simp add: score_events_def query_hits_def)
next
  case (Cons t ts)
  have q: "query_hits idx (t # ts) i
     = (case invertedIndex idx t of
          None \<Rightarrow> []
        | Some ps \<Rightarrow> map (\<lambda>p. (length ps, p)) (filter (\<lambda>p. doc_ident idx p = i) ps))
       @ query_hits idx ts i"
    by (simp add: query_hits_def)
  show ?case
    unfolding score_events_Cons q
    by (cases "invertedIndex idx t")
      (simp_all add: Cons.IH sum_filter_map calculateIDF_def calculateBM25Score_def Let_def
        comp_def)
qed

lemma query_hits_Cons:
  "query_hits idx (t # ts) i
     = (case invertedIndex idx t of
          None \<Rightarrow> []
        | Some ps \<Rightarrow> map (\<lambda>p. (length ps, p)) (filter (\<lambda>p. doc_ident idx p = i) ps))
       @ query_hits idx ts i"
  by (simp add: query_hits_def)

lemma score_events_hits:
  "i \<in> fst ` set (score_events idx ts) \<longleftrightarrow> query_hits idx ts i \<noteq> []"
proof (induction ts)
  case Nil
  then show ?case by (simp add: score_events_def query_hits_def)
next
  case (Cons t ts)
  have e: "score_events idx (t # ts)
     = (case invertedIndex idx t of
          None \<Rightarrow> []
        | Some ps \<Rightarrow>
            map (\<lambda>p. (doc_ident idx p,
                      calculateBM25Score idx (docIndex p) (frequency p) (calculateIDF idx t))) ps)
       @ score_events idx ts"
    by (simp add: score_events_def)
  show ?case
  proof (cases "invertedIndex idx t")
    case None
    with Cons.IH show ?thesis by (simp add: e query_hits_Cons)
  next
    case (Some ps)
    have "i \<in> fst ` set (map (\<lambda>p. (doc_ident idx p,
                      calculateBM25Score idx (docIndex p) (frequency p) (calculateIDF idx t))) ps)
          \<longleftrightarrow> filter (\<lambda>p. doc_ident idx p = i) ps \<noteq> []"
      by (force simp: filter_empty_conv)
    with Cons.IH Some show ?thesis
      by (simp add: e query_hits_Cons image_Un)
  qed
qed

lemma first_scored_hits:
  "set (first_scored idx query)
     = {i. query_hits idx (tokenize (tokenizationOptions idx) query) i \<noteq> []}"
  using score_events_hits by (auto simp: first_scored_def set_fold_add_key)

text \<open>
  C4 (as the code behaves): on an index built by the constructor and \<open>addDocument\<close>, every
  query returns the documents that a posting of one of its tokens names (those with a
  hit, in the order \<open>first_scored\<close> before the sort), and the score of
  a document is the sum, over the occurrences of tokens in the tokenized query and the
  postings of these tokens that name the document, of
  \<open>ln(1 + (N - n + 0.5)/(n + 0.5) + \<epsilon>) * (f (k1 + 1))/(f + k1 (1 - b + b dl/avg))\<close>, where \<open>n\<close>
  is the number of postings of the token, \<open>f\<close> the frequency in the posting and \<open>dl\<close> the
  length of its document.  The loop runs over the tokens of the query as they are, so a
  term that occurs several times in the query contributes once per occurrence.  Every
  posting names a document of the index with a frequency of at least 1, and the average
  length is positive, so no division by zero occurs.  For the one document of ten tokens
  that contains "foo" twice, the query "foo" has the score \<open>ln(1 + 1/3 + 0.25) * 4.4/3.2\<close>.
\<close>

theorem bm25_scores:
  assumes idx: "idx = addDocuments (BM25Index_new options) docs"
  shows "search idx query k
           = Inr (js_slice0 k (sort_desc res_score
               (map (\<lambda>i. \<lparr>res_id = i,
                           res_score =
                             sum_list (map (\<lambda>(n, p).
                               ln (1 + (real (documentCount idx) - real n + 0.5) / (real n + 0.5)
                                     + epsilon idx)
                               * (real (frequency p) * (k1 idx + 1)
                                  / (real (frequency p)
                                     + k1 idx * (1 - b idx
                                         + b idx * (real (documentLengths idx ! docIndex p)
                                                     / averageDocumentLength idx)))))
                               (query_hits idx (tokenize (tokenizationOptions idx) query) i)),
                           res_metadata = documentMetadata idx i\<rparr>)
                  (first_scored idx query))))
         \<and> set (first_scored idx query)
             = {i. query_hits idx (tokenize (tokenizationOptions idx) query) i \<noteq> []}
         \<and> (\<forall>t ps p. invertedIndex idx t = Some ps \<and> p \<in> set ps
                \<longrightarrow> docIndex p < length (documents idx) \<and> 1 \<le> frequency p
                    \<and> 0 < averageDocumentLength idx)
         \<and> search idx1 ''foo'' 5
             = Inr [\<lparr>res_id = ''/p/a.ts:1-10'', res_score = ln (1 + 1/3 + 0.25) * (4.4 / 3.2),
                     res_metadata = Some (doc_metadata doc1)\<rparr>]"
proof (intro conjI allI impI)
  have wf: "wf_index idx" unfolding idx by (rule wf_index_reachable)
  show "search idx query k
           = Inr (js_slice0 k (sort_desc res_score
               (map (\<lambda>i. \<lparr>res_id = i,
                           res_score =
                             sum_list (map (\<lambda>(n, p).
                               ln (1 + (real (documentCount idx) - real n + 0.5) / (real n + 0.5)
                                     + epsilon idx)
                               * (real (frequency p) * (k1 idx + 1)
                                  / (real (frequency p)
                                     + k1 idx * (1 - b idx
                                         + b idx * (real (documentLengths idx ! docIndex p)
                                                     / averageDocumentLength idx)))))
                               (query_hits idx (tokenize (tokenizationOptions idx) query) i)),
                           res_metadata = documentMetadata idx i\<rparr>)
                  (first_scored idx query))))"
    by (simp add: search_eq[OF wf] fold_add_score_totals score_events_total first_scored_def
        comp_def)
next
  show "set (first_scored idx query)
             = {i. query_hits idx (tokenize (tokenizationOptions idx) query) i \<noteq> []}"
    by (rule first_scored_hits)
next
  fix t ps p
  assume a: "invertedIndex idx t = Some ps \<and> p \<in> set ps"
  have wf: "wf_index idx" unfolding idx by (rule wf_index_reachable)
  from a have ps: "invertedIndex idx t = Some ps" and p: "p \<in> set ps" by simp_all
  from wf ps have wp: "wf_postings idx ps" by (auto simp: wf_index_def)
  with p wf have "docIndex p < length (documents idx)" "1 \<le> frequency p"
    by (auto simp: wf_postings_def wf_index_def)
  with average_positive[OF wf ps p]
  show "docIndex p < length (documents idx)" "1 \<le> frequency p" "0 < averageDocumentLength idx"
    by simp_all
next
  show "search idx1 ''foo'' 5
             = Inr [\<lparr>res_id = ''/p/a.ts:1-10'', res_score = ln (1 + 1/3 + 0.25) * (4.4 / 3.2),
                     res_metadata = Some (doc_metadata doc1)\<rparr>]"
    using search_idx1 by (simp add: doc1_def)
qed

lemma hits_idx1:
  "first_scored idx1 ''foo'' = [''/p/a.ts:1-10'']"
  "query_hits idx1 [''foo''] ''/p/a.ts:1-10'' = [(1, \<lparr>docIndex = 0, frequency = 2\<rparr>)]"
  by (simp_all add: first_scored_def score_events_def query_hits_def idx1_fields tokens_examples
      add_key_def doc_ident_def doc1_def)

theorem bm25_scores_witness:
  "idx1 = addDocuments (BM25Index_new no_options) [doc1]
   \<and> search idx1 ''foo'' 5
       = Inr [\<lparr>res_id = ''/p/a.ts:1-10'', res_score = ln (1 + 1/3 + 0.25) * (4.4 / 3.2),
               res_metadata = Some (doc_metadata doc1)\<rparr>]
   \<and> invertedIndex idx1 ''foo'' = Some [\<lparr>docIndex = 0, frequency = 2\<rparr>]
   \<and> docIndex \<lparr>docIndex = 0, frequency = 2\<rparr> < length (documents idx1)
   \<and> 0 < averageDocumentLength idx1"
proof -
  have h: "idx1 = addDocuments (BM25Index_new no_options) [doc1]" by (simp add: idx1_def)
  have ps: "invertedIndex idx1 ''foo'' = Some [\<lparr>docIndex = 0, frequency = 2\<rparr>]"
    by (simp add: idx1_fields)
  have m: "documentMetadata idx1 ''/p/a.ts:1-10'' = Some (doc_metadata doc1)"
    using idx1_fields(9) by (simp add: doc1_def)
  note T = bm25_scores[OF h]
  from T[of "''foo''" 5, THEN conjunct1] m
  have s: "search idx1 ''foo'' 5
       = Inr [\<lparr>res_id = ''/p/a.ts:1-10'', res_score = ln (1 + 1/3 + 0.25) * (4.4 / 3.2),
               res_metadata = Some (doc_metadata doc1)\<rparr>]"
    by (simp add: hits_idx1 idx1_fields tokens_examples js_slice0_def sort_desc_def)
  have "invertedIndex idx1 ''foo'' = Some [\<lparr>docIndex = 0, frequency = 2\<rparr>]
      \<and> \<lparr>docIndex = 0, frequency = 2\<rparr> \<in> set [\<lparr>docIndex = 0, frequency = 2\<rparr>]"
    using ps by simp
  with T[of "''foo''" 5, THEN conjunct2, THEN conjunct2, THEN conjunct1]
  have v: "docIndex \<lparr>docIndex = 0, frequency = 2\<rparr> < length (documents idx1)
     \<and> 0 < averageDocumentLength idx1"
    by blast
  from h s ps v show ?thesis by simp
qed

text \<open>
  The query "foo foo" has the tokens "foo", "foo", and the document gets twice the score
  of the query "foo": the contribution of the term "foo" is not the value of the formula.
\<close>

theorem bm25_repeated_term_counterexample:
  "search idx1 ''foo foo'' 5
     = Inr [\<lparr>res_id = ''/p/a.ts:1-10'', res_score = 2 * (ln (1 + 1/3 + 0.25) * (4.4 / 3.2)),
             res_metadata = Some (doc_metadata doc1)\<rparr>]
   \<and> tokenize (tokenizationOptions idx1) ''foo foo'' = [''foo'', ''foo'']"
proof -
  have "search idx1 ''foo foo'' 5
     = Inr [\<lparr>res_id = doc_id doc1, res_score = 2 * (ln (1 + 1/3 + 0.25) * (4.4 / 3.2)),
             res_metadata = Some (doc_metadata doc1)\<rparr>]"
    by (simp add: search_def idx1_fields tokens_examples calculateIDF_def calculateBM25Score_def
        map_has_def map_of_map_set js_slice0_def sort_desc_def Let_def)
  then show ?thesis by (simp add: doc1_def idx1_fields tokens_examples)
qed

lemma vi1_fields:
  "size vi1 = 1"
  "idToMetadata vi1 0 = Some (chunk_meta (chunk_of (JF32 zero_vector)))"
  "idToMetadata vi1 0 =
     Some \<lparr>vm_filePath = Some ''/p/a.ts'', vm_startLine = Some 1, vm_endLine = Some 10,
           vm_content = Some ''x'', vm_displayContent = None, vm_fileName = None,
           vm_fileExt = None, vm_directory = None, vm_hasImports = None\<rparr>"
  by (simp_all add: vi1_def addToIndex_def createFAISSIndex_def chunk_of_def process_embedding_def
      to_processed_def faiss_add_def EMBEDDING_DIMENSION_def zero_vector_def list_ex_iff chunk_meta_def)

section \<open>Merging the two result lists\<close>

text \<open>
  C1 (the code at an input where one chunk is returned by both searches): the vector
  search returns the label of the index library as the id of its result, here 0 for the
  chunk of \<open>/p/a.ts\<close>, lines 1 to 10.  Merged with the BM25 result for the same chunk, whose
  id is \<open>/p/a.ts:1-10\<close>, it gives two entries, keyed \<open>/p/a.ts:1-10\<close> and \<open>0\<close>: each has one of
  its two scores at 0, and none has the combined score \<open>0.3 * 2 + 0.7 * 0.5\<close>.
\<close>

theorem mergeResults_same_chunk:
  "searchIndex (\<lambda>ix q k. Inr ([50], [0])) vi1 zero_vector 3
     = Inr [\<lparr>vr_id = 0, vr_score = 1 / 2, vr_distance = 50,
             vr_metadata = chunk_meta (chunk_of (JF32 zero_vector))\<rparr>]
   \<and> mergeResults
       [\<lparr>res_id = ''/p/a.ts:1-10'', res_score = 2, res_metadata = Some (doc_metadata doc1)\<rparr>]
       [\<lparr>vr_id = 0, vr_score = 1 / 2, vr_distance = 50,
         vr_metadata = chunk_meta (chunk_of (JF32 zero_vector))\<rparr>]
       0.3 0.7
     = Inr [\<lparr>sr_id = ''/p/a.ts:1-10'', bm25Score = 2, vectorScore = 0, combinedScore = 0.6,
             sr_metadata = Some \<lparr>sm_filePath = ''/p/a.ts'', sm_fileName = ''a.ts'',
               sm_startLine = 1, sm_endLine = 10, sm_fileExt = ''.ts'', sm_hasImports = False\<rparr>,
             rootCauseScore = None\<rparr>,
            \<lparr>sr_id = ''0'', bm25Score = 0, vectorScore = 1 / 2, combinedScore = 0.35,
             sr_metadata = Some \<lparr>sm_filePath = ''/p/a.ts'', sm_fileName = [],
               sm_startLine = 1, sm_endLine = 10, sm_fileExt = [], sm_hasImports = False\<rparr>,
             rootCauseScore = None\<rparr>]"
proof (intro conjI)
  show "searchIndex (\<lambda>ix q k. Inr ([50], [0])) vi1 zero_vector 3
     = Inr [\<lparr>vr_id = 0, vr_score = 1 / 2, vr_distance = 50,
             vr_metadata = chunk_meta (chunk_of (JF32 zero_vector))\<rparr>]"
    by (simp add: searchIndex_def vi1_fields(1,2) sort_desc_def Let_def)
next
  have s: "String_int 0 = ''0''" by code_simp
  show "mergeResults
       [\<lparr>res_id = ''/p/a.ts:1-10'', res_score = 2, res_metadata = Some (doc_metadata doc1)\<rparr>]
       [\<lparr>vr_id = 0, vr_score = 1 / 2, vr_distance = 50,
         vr_metadata = chunk_meta (chunk_of (JF32 zero_vector))\<rparr>]
       0.3 0.7
     = Inr [\<lparr>sr_id = ''/p/a.ts:1-10'', bm25Score = 2, vectorScore = 0, combinedScore = 0.6,
             sr_metadata = Some \<lparr>sm_filePath = ''/p/a.ts'', sm_fileName = ''a.ts'',
               sm_startLine = 1, sm_endLine = 10, sm_fileExt = ''.ts'', sm_hasImports = False\<rparr>,
             rootCauseScore = None\<rparr>,
            \<lparr>sr_id = ''0'', bm25Score = 0, vectorScore = 1 / 2, combinedScore = 0.35,
             sr_metadata = Some \<lparr>sm_filePath = ''/p/a.ts'', sm_fileName = [],
               sm_startLine = 1, sm_endLine = 10, sm_fileExt = [], sm_hasImports = False\<rparr>,
             rootCauseScore = None\<rparr>]"
    by (simp add: mergeResults_def s map_has_def new_entry_def toSearchResultMetadata_def
        vectorToSearchResultMetadata_def chunk_meta_def chunk_of_def doc1_def combine_def
        sort_desc_def Let_def)
qed

section \<open>Scores of the hybrid search\<close>

text \<open>
  The results that \<open>retrieveRelevantFiles\<close> groups by file are those of \<open>hybridSearch\<close>.
  With weights that are not negative (they are documented as lying between 0 and 1, and
  default to 0.3 and 0.7) and BM25 parameters \<open>k1 \<ge> 0\<close>, \<open>0 \<le> b \<le> 1\<close>, \<open>\<epsilon> \<ge> 0\<close>, no combined score
  is negative: a BM25 score is not negative, a vector score is \<open>max(0, 1 - distance/100)\<close>,
  and the combined score is their weighted sum.
\<close>

lemma set_js_slice0: "set (js_slice0 k xs) \<subseteq> set xs"
  by (auto simp: js_slice0_def dest: in_set_takeD)

lemma set_sort_desc: "set (sort_desc f xs) = set xs"
  by (simp add: sort_desc_def)

lemma search_scores_nonneg:
  assumes wf: "wf_index idx"
    and par: "0 \<le> k1 idx" "0 \<le> b idx" "b idx \<le> 1" "0 \<le> epsilon idx"
    and s: "search idx query k = Inr rs"
  shows "\<forall>r \<in> set rs. 0 \<le> res_score r"
proof
  fix r assume r: "r \<in> set rs"
  define sc where "sc = fold (\<lambda>(i, s) sc. add_score sc i s)
                    (score_events idx (tokenize (tokenizationOptions idx) query)) []"
  have nn: "\<forall>e \<in> set sc. 0 \<le> snd e"
    unfolding sc_def by (intro values_fold_add_score score_events_nonneg wf par) simp
  define us where "us = map (\<lambda>(docId, score). \<lparr>res_id = docId, res_score = score,
                                       res_metadata = documentMetadata idx docId\<rparr>) sc"
  from s have "rs = js_slice0 k (sort_desc res_score us)"
    by (simp add: search_eq[OF wf] sc_def us_def)
  with r set_js_slice0[of k "sort_desc res_score us"] have "r \<in> set us"
    by (auto simp: set_sort_desc)
  then have "r \<in> set (map (\<lambda>(docId, score). \<lparr>res_id = docId, res_score = score,
                                       res_metadata = documentMetadata idx docId\<rparr>) sc)"
    by (simp only: us_def)
  then obtain e where "e \<in> set sc" "res_score r = snd e" by (auto simp: case_prod_beta)
  with nn show "0 \<le> res_score r" by simp
qed

lemma collect_results_nonneg: "\<forall>v \<in> set (collect_results m lds). 0 \<le> vr_score v"
  by (induction m lds rule: collect_results.induct) (auto split: option.splits)

lemma searchIndex_scores_nonneg:
  "searchIndex f vi q k = Inr vs \<Longrightarrow> \<forall>v \<in> set vs. 0 \<le> vr_score v"
  using collect_results_nonneg
  by (auto simp: searchIndex_def Let_def set_sort_desc split: if_splits sum.splits prod.splits)

lemma map_has_entry: "map_has m k \<Longrightarrow> (k, the (map_of m k)) \<in> set m"
  by (auto simp: map_has_def dest: map_of_SomeD)

lemma merge_bm25_nonneg:
  assumes "\<forall>r \<in> set rs. 0 \<le> res_score r"
    and "\<forall>e \<in> set m. 0 \<le> bm25Score (snd e) \<and> 0 \<le> vectorScore (snd e)"
    and "merge_bm25 rs m = Inr m'"
  shows "\<forall>e \<in> set m'. 0 \<le> bm25Score (snd e) \<and> 0 \<le> vectorScore (snd e)"
  using assms
proof (induction rs arbitrary: m)
  case Nil
  then show ?case by simp
next
  case (Cons r rs)
  from Cons.prems(3) obtain metadata where md: "res_metadata r = Some metadata"
    by (cases "res_metadata r") auto
  define m1 where "m1 = (if \<not> map_has m (res_id r)
                     then map_set m (res_id r) (new_entry (res_id r) (toSearchResultMetadata metadata))
                     else m)"
  define entry where "entry = the (map_of m1 (res_id r))"
  define m2 where "m2 = map_set m1 (res_id r)
                   (entry\<lparr>bm25Score := res_score r,
                          sr_metadata := Some (toSearchResultMetadata metadata)\<rparr>)"
  have step: "merge_bm25 (r # rs) m = merge_bm25 rs m2"
    by (simp add: md m1_def entry_def m2_def Let_def)
  have i1: "\<forall>e \<in> set m1. 0 \<le> bm25Score (snd e) \<and> 0 \<le> vectorScore (snd e)"
    using Cons.prems(2) set_map_set_subset[of m "res_id r" "new_entry (res_id r) (toSearchResultMetadata metadata)"]
    by (auto simp: m1_def new_entry_def)
  have "map_has m1 (res_id r)" by (simp add: m1_def map_has_def map_of_map_set)
  then have "(res_id r, entry) \<in> set m1" unfolding entry_def by (rule map_has_entry)
  with i1 have e: "0 \<le> vectorScore entry" by auto
  have i2: "\<forall>e \<in> set m2. 0 \<le> bm25Score (snd e) \<and> 0 \<le> vectorScore (snd e)"
    using i1 e Cons.prems(1)
      set_map_set_subset[of m1 "res_id r" "entry\<lparr>bm25Score := res_score r,
                          sr_metadata := Some (toSearchResultMetadata metadata)\<rparr>"]
    by (auto simp: m2_def)
  from Cons.prems(1) have "\<forall>r \<in> set rs. 0 \<le> res_score r" by simp
  from Cons.IH[OF this i2] Cons.prems(3) step show ?case by simp
qed

lemma merge_vector_nonneg:
  assumes "\<forall>r \<in> set rs. 0 \<le> vr_score r"
    and "\<forall>e \<in> set m. 0 \<le> bm25Score (snd e) \<and> 0 \<le> vectorScore (snd e)"
  shows "\<forall>e \<in> set (merge_vector rs m). 0 \<le> bm25Score (snd e) \<and> 0 \<le> vectorScore (snd e)"
  using assms
proof (induction rs arbitrary: m)
  case Nil
  then show ?case by simp
next
  case (Cons r rs)
  define idStr where "idStr = String_int (vr_id r)"
  define m1 where "m1 = (if \<not> map_has m idStr
                then map_set m idStr (new_entry idStr (vectorToSearchResultMetadata (vr_metadata r)))
                else m)"
  define entry where "entry = the (map_of m1 idStr)"
  define m2 where "m2 = map_set m1 idStr
              (entry\<lparr>vectorScore := vr_score r,
                     sr_metadata := Some (vectorToSearchResultMetadata (vr_metadata r))\<rparr>)"
  have step: "merge_vector (r # rs) m = merge_vector rs m2"
    by (simp add: idStr_def m1_def entry_def m2_def Let_def)
  have i1: "\<forall>e \<in> set m1. 0 \<le> bm25Score (snd e) \<and> 0 \<le> vectorScore (snd e)"
    using Cons.prems(2) set_map_set_subset[of m idStr "new_entry idStr (vectorToSearchResultMetadata (vr_metadata r))"]
    by (auto simp: m1_def new_entry_def)
  have "map_has m1 idStr" by (simp add: m1_def map_has_def map_of_map_set)
  then have "(idStr, entry) \<in> set m1" unfolding entry_def by (rule map_has_entry)
  with i1 have e: "0 \<le> bm25Score entry" by auto
  have i2: "\<forall>e \<in> set m2. 0 \<le> bm25Score (snd e) \<and> 0 \<le> vectorScore (snd e)"
    using i1 e Cons.prems(1)
      set_map_set_subset[of m1 idStr "entry\<lparr>vectorScore := vr_score r,
                     sr_metadata := Some (vectorToSearchResultMetadata (vr_metadata r))\<rparr>"]
    by (auto simp: m2_def)
  from Cons.prems(1) have "\<forall>r \<in> set rs. 0 \<le> vr_score r" by simp
  from Cons.IH[OF this i2] step show ?case by simp
qed

lemma mergeResults_nonneg:
  assumes "\<forall>r \<in> set bs. 0 \<le> res_score r" "\<forall>r \<in> set vs. 0 \<le> vr_score r"
    and "0 \<le> bw" "0 \<le> vw"
    and "mergeResults bs vs bw vw = Inr rs"
  shows "\<forall>r \<in> set rs. 0 \<le> combinedScore r"
proof -
  from assms(5) obtain m where m: "merge_bm25 bs [] = Inr m"
    and rs: "rs = sort_desc combinedScore
                 (map (\<lambda>(key, entry). combine bw vw entry) (merge_vector vs m))"
    by (auto simp: mergeResults_def split: sum.splits)
  from merge_bm25_nonneg[OF assms(1) _ m]
  have "\<forall>e \<in> set m. 0 \<le> bm25Score (snd e) \<and> 0 \<le> vectorScore (snd e)" by simp
  from merge_vector_nonneg[OF assms(2) this]
  have "\<forall>e \<in> set (merge_vector vs m). 0 \<le> bm25Score (snd e) \<and> 0 \<le> vectorScore (snd e)" .
  then show ?thesis using assms(3,4)
    by (auto simp: rs set_sort_desc combine_def case_prod_beta)
qed

lemma hybridSearch_scores_nonneg:
  assumes idx: "bm25Index = addDocuments (BM25Index_new bm25Options) docs"
    and par: "0 \<le> k1 bm25Index" "0 \<le> b bm25Index" "b bm25Index \<le> 1" "0 \<le> epsilon bm25Index"
    and bw: "case hs_bm25Weight options of None \<Rightarrow> True | Some x \<Rightarrow> 0 \<le> x"
    and vw: "case hs_vectorWeight options of None \<Rightarrow> True | Some x \<Rightarrow> 0 \<le> x"
    and h: "hybridSearch w query vectorIndex bm25Index options = Inr rs"
  shows "\<forall>r \<in> set rs. 0 \<le> combinedScore r"
proof -
  have wf: "wf_index bm25Index" unfolding idx by (rule wf_index_reachable)
  define bm25Weight where
    "bm25Weight = (case hs_bm25Weight options of None \<Rightarrow> DEFAULT_BM25_WEIGHT | Some x \<Rightarrow> x)"
  define vectorWeight where
    "vectorWeight = (case hs_vectorWeight options of None \<Rightarrow> DEFAULT_VECTOR_WEIGHT | Some x \<Rightarrow> x)"
  have b0: "0 \<le> bm25Weight" using bw
    by (auto simp: bm25Weight_def DEFAULT_BM25_WEIGHT_def split: option.splits)
  have v0: "0 \<le> vectorWeight" using vw
    by (auto simp: vectorWeight_def DEFAULT_VECTOR_WEIGHT_def split: option.splits)
  from b0 v0 have n: "0 \<le> bm25Weight / (bm25Weight + vectorWeight)"
    "0 \<le> vectorWeight / (bm25Weight + vectorWeight)" by simp_all
  from h obtain ek bs q vs ms sk where
    s: "search bm25Index query ek = Inr bs"
    and v: "searchIndex (w_faiss_search w) vectorIndex q ek = Inr vs"
    and m: "mergeResults bs vs (bm25Weight / (bm25Weight + vectorWeight))
              (vectorWeight / (bm25Weight + vectorWeight)) = Inr ms"
    and rs: "rs = js_slice0 sk ms"
    unfolding hybridSearch_def Let_def bm25Weight_def vectorWeight_def
    by (auto split: sum.splits)
  from mergeResults_nonneg[OF search_scores_nonneg[OF wf par s] searchIndex_scores_nonneg[OF v] n m]
  have "\<forall>r \<in> set ms. 0 \<le> combinedScore r" .
  with set_js_slice0[of sk ms] show ?thesis unfolding rs by blast
qed

section \<open>Grouping the results by file\<close>


lemma Max_with_nonneg:
  assumes "\<exists>x \<in> set xs. (0::real) \<le> x"
  shows "Max (insert 0 (set xs)) = Max (set xs)"
proof -
  from assms obtain x where x: "x \<in> set xs" "0 \<le> x" by blast
  then have ne: "set xs \<noteq> {}" by auto
  have "x \<le> Max (set xs)" using x by simp
  with x have "0 \<le> Max (set xs)" by linarith
  with ne show ?thesis by (simp add: max_def)
qed

lemma group_fields:
  assumes "g \<in> set (groupResultsByFile rs)"
  shows "chunks g = filter (\<lambda>r. result_path r = Some (g_filePath g)) rs"
    and "chunks g \<noteq> []"
    and "totalScore g = sum_list (map combinedScore (chunks g))"
    and "maxScore g = Max (insert 0 (set (map combinedScore (chunks g))))"
proof -
  have inv: "group_inv rs (group_loop rs [])" by (rule group_loop_result)
  from assms obtain p where "(p, g) \<in> set (group_loop rs [])"
    by (force simp: groupResultsByFile_def sort_desc_def)
  with group_entries[OF inv]
  have g: "filter (\<lambda>r. result_path r = Some p) rs \<noteq> []" "g = group_spec rs p" by blast+
  then show "chunks g = filter (\<lambda>r. result_path r = Some (g_filePath g)) rs"
    and "chunks g \<noteq> []"
    and "totalScore g = sum_list (map combinedScore (chunks g))"
    and "maxScore g = Max (insert 0 (set (map combinedScore (chunks g))))"
    by (simp_all add: group_spec_def Let_def foldl_max_Max)
qed



text \<open>
  For the results of \<open>hybridSearch\<close> the maximal score of every group is the maximum of the
  combined scores of its chunks.
\<close>

lemma hybridSearch_groups_maxScore:
  assumes idx: "bm25Index = addDocuments (BM25Index_new bm25Options) docs"
    and par: "0 \<le> k1 bm25Index" "0 \<le> b bm25Index" "b bm25Index \<le> 1" "0 \<le> epsilon bm25Index"
    and bw: "case hs_bm25Weight options of None \<Rightarrow> True | Some x \<Rightarrow> 0 \<le> x"
    and vw: "case hs_vectorWeight options of None \<Rightarrow> True | Some x \<Rightarrow> 0 \<le> x"
    and h: "hybridSearch w query vectorIndex bm25Index options = Inr rs"
    and g: "g \<in> set (groupResultsByFile rs)"
  shows "maxScore g = Max (set (map combinedScore (chunks g)))"
proof -
  from hybridSearch_scores_nonneg[OF idx par bw vw h]
  have nn: "\<forall>r \<in> set rs. 0 \<le> combinedScore r" .
  from group_fields(2)[OF g] obtain r where r: "r \<in> set (chunks g)"
    by (cases "chunks g") auto
  then have "r \<in> set rs" unfolding group_fields(1)[OF g] by simp
  note r = r this
  with r nn have "\<exists>x \<in> set (map combinedScore (chunks g)). 0 \<le> x" by auto
  from Max_with_nonneg[OF this] group_fields(4)[OF g] show ?thesis by simp
qed

section \<open>Errors of the retrieval entry point\<close>








end
